theory Spec2Isabelle
  imports Main "HOL-Library.List_Lexorder" "HOL-Library.Multiset"
begin

section \<open>Python strings\<close>

text \<open>
  A Python \<open>str\<close> is a sequence of Unicode code points. Both scripts handle Chinese
  text, and \<open>str.strip\<close> and \<open>str.split\<close> decide on code points, so a string is
  modelled as the list of its code points. \<open>ascii\<close> writes an ASCII literal.
\<close>

type_synonym pystr = "nat list"

definition ascii :: "string \<Rightarrow> pystr" where
  "ascii s = map of_char s"

text \<open>
  \<open>str.isspace\<close> on one code point: the code points Python treats as whitespace
  (\<open>str.strip()\<close> and \<open>str.split(None)\<close> use the same set).
\<close>

definition isspace :: "nat \<Rightarrow> bool" where
  "isspace c \<longleftrightarrow>
     (9 \<le> c \<and> c \<le> 13) \<or> (28 \<le> c \<and> c \<le> 32) \<or> c = 133 \<or> c = 160 \<or> c = 5760 \<or>
     (8192 \<le> c \<and> c \<le> 8202) \<or> c = 8232 \<or> c = 8233 \<or> c = 8239 \<or> c = 8287 \<or> c = 12288"

text \<open>\<open>s.strip()\<close>: leading and trailing whitespace removed.\<close>

definition strip :: "pystr \<Rightarrow> pystr" where
  "strip s = rev (dropWhile isspace (rev (dropWhile isspace s)))"

text \<open>
  \<open>s.split(None, 1)\<close>: leading whitespace is skipped; the first part is the maximal
  run of non-whitespace; the whitespace after it is skipped and whatever is left, if
  anything, is the second part (its own trailing whitespace is kept).
\<close>

definition split_none_1 :: "pystr \<Rightarrow> pystr list" where
  "split_none_1 s =
     (let t = dropWhile isspace s in
      if t = [] then []
      else
        let first = takeWhile (\<lambda>c. \<not> isspace c) t;
            rest = dropWhile isspace (dropWhile (\<lambda>c. \<not> isspace c) t)
        in if rest = [] then [first] else [first, rest])"

text \<open>\<open>s.startswith('#')\<close>; the code point of \<open>#\<close> is 35.\<close>

definition startswith_hash :: "pystr \<Rightarrow> bool" where
  "startswith_hash s = (case s of [] \<Rightarrow> False | c # _ \<Rightarrow> c = 35)"

section \<open>Pipeline A: the word-list parser\<close>

text \<open>
  A word entry is the tuple \<open>(chinese, english)\<close> of the source; \<open>english\<close> is
  \<open>None\<close> for a line with one part.
\<close>

type_synonym word_entry = "pystr \<times> pystr option"

text \<open>
  The exceptions of the model: \<open>OSError\<close> when the input file cannot be opened or
  decoded, \<open>CalledProcessError\<close> when \<open>subprocess.run(..., check=True)\<close> finds a
  non-zero exit status, \<open>ZeroDivisionError\<close> for a division by zero.
\<close>

datatype py_error = OSError | CalledProcessError | ZeroDivisionError

text \<open>
  The body of the loop of \<open>parse_word_file\<close> on one line: the entries appended for
  that line (none or one).
\<close>

definition parse_line :: "pystr \<Rightarrow> word_entry list" where
  "parse_line raw =
     (let line = strip raw in
      if line = [] \<or> startswith_hash line then []
      else
        let parts = split_none_1 line in
        if length parts \<ge> 2 then [(parts ! 0, Some (parts ! 1))]
        else if length parts = 1 then [(parts ! 0, None)]
        else [])"

fun parse_lines :: "pystr list \<Rightarrow> word_entry list \<Rightarrow> word_entry list" where
  "parse_lines [] words = words"
| "parse_lines (raw # rest) words = parse_lines rest (words @ parse_line raw)"

text \<open>
  \<open>parse_word_file\<close>: the file is given as what \<open>open\<close> yields, \<open>None\<close> when the
  file cannot be read and otherwise the lines the file object iterates over.
\<close>

definition parse_word_file :: "pystr list option \<Rightarrow> py_error + word_entry list" where
  "parse_word_file file =
     (case file of None \<Rightarrow> Inl OSError | Some lines \<Rightarrow> Inr (parse_lines lines []))"


section \<open>Pipeline A: effects\<close>

text \<open>
  \<open>str(i)\<close> for a non-negative integer, and \<open>os.path.join\<close> (POSIX) for two
  components.
\<close>

fun str_nat :: "nat \<Rightarrow> pystr" where
  "str_nat n = (if n < 10 then [48 + n] else str_nat (n div 10) @ [48 + n mod 10])"

declare str_nat.simps [simp del]

definition path_join :: "pystr \<Rightarrow> pystr \<Rightarrow> pystr" where
  "path_join a b =
     (if b \<noteq> [] \<and> hd b = 47 then b
      else if a = [] \<or> last a = 47 then a @ b
      else a @ [47] @ b)"

text \<open>
  \<open>os.path.splitext(p)[0]\<close> (POSIX): the path up to its last dot, when that dot
  lies after the last \<open>/\<close> and is not one of the leading dots of the file name.
\<close>

definition rfind :: "nat \<Rightarrow> pystr \<Rightarrow> int" where
  "rfind c p = (if c \<in> set p then int (length p) - 1 - int (length (takeWhile (\<lambda>x. x \<noteq> c) (rev p))) else - 1)"

definition splitext_root :: "pystr \<Rightarrow> pystr" where
  "splitext_root p =
     (let sepIndex = rfind 47 p; dotIndex = rfind 46 p in
      if dotIndex > sepIndex \<and> list_ex (\<lambda>k. p ! k \<noteq> 46) [nat (sepIndex + 1)..<nat dotIndex]
      then take (nat dotIndex) p else p)"

text \<open>
  The two ways the script runs \<open>ffmpeg\<close>: \<open>Anullsrc ms out\<close> is the command of
  \<open>generate_silence\<close> (\<open>-f lavfi -i anullsrc=r=24000:cl=mono -t ms/1000 -q:a 9 out\<close>),
  \<open>Concat list out\<close> the command of \<open>merge_audio_files\<close>
  (\<open>-f concat -safe 0 -i list -c:a libmp3lame -q:a 2 out\<close>).
\<close>

datatype ffmpeg_cmd = Anullsrc nat pystr | Concat pystr pystr

text \<open>What the script prints, one constructor for each \<open>print\<close> of the source.\<close>

datatype message =
    Msg_processing pystr
  | Msg_output pystr
  | Msg_no_words
  | Msg_found nat
  | Msg_single nat nat pystr
  | Msg_pair nat nat pystr pystr
  | Msg_merging
  | Msg_done pystr
  | Msg_retry nat nat pystr
  | Msg_warning pystr pystr
  | Msg_no_txt pystr
  | Msg_found_txt nat
  | Msg_blank

text \<open>
  What a run does to the outside, in order: a message printed, one request to the
  voice backend (text, voice, rate, output file), \<open>asyncio.sleep\<close>, one run of
  \<open>ffmpeg\<close>, the lines written to a file.
\<close>

datatype event =
    Print message
  | Synthesize pystr pystr pystr pystr
  | Sleep nat
  | Run_tool ffmpeg_cmd
  | Write_lines pystr "pystr list"

text \<open>
  The outside of a run. \<open>read_file\<close> gives the lines of an input file, \<open>None\<close>
  when it cannot be read. \<open>backend text voice out attempt\<close> is \<open>None\<close> when that
  attempt of \<open>edge_tts.Communicate(...).save(out)\<close> succeeds and the exception's
  message when it raises. \<open>run_tool cmd\<close> is \<open>None\<close> when \<open>ffmpeg\<close> exits with
  status 0 and the exception \<open>subprocess.run\<close> raises otherwise. \<open>mkdtemp\<close> is
  the directory \<open>tempfile.TemporaryDirectory\<close> creates for the job of an input
  file, \<open>glob_txt\<close> the result of \<open>Path(directory).glob("*.txt")\<close>; the two
  voices are the globals \<open>CHINESE_VOICE\<close> and \<open>ENGLISH_VOICE\<close>.
\<close>

record world =
  read_file :: "pystr \<Rightarrow> pystr list option"
  backend :: "pystr \<Rightarrow> pystr \<Rightarrow> pystr \<Rightarrow> nat \<Rightarrow> pystr option"
  run_tool :: "ffmpeg_cmd \<Rightarrow> py_error option"
  mkdtemp :: "pystr \<Rightarrow> pystr"
  glob_txt :: "pystr \<Rightarrow> pystr list"
  chinese_voice :: pystr
  english_voice :: pystr

definition RATE :: pystr where
  "RATE = ascii ''-10%''"

definition PAUSE_BETWEEN_WORDS :: nat where
  "PAUSE_BETWEEN_WORDS = 800"

definition PAUSE_BETWEEN_LANGUAGES :: nat where
  "PAUSE_BETWEEN_LANGUAGES = 500"

definition MAX_RETRIES :: nat where
  "MAX_RETRIES = 3"

text \<open>
  A coroutine's outcome: the events it caused and then either the exception that
  left it or its return value. \<open>bind_io\<close> is sequencing (\<open>await\<close> one, then the
  next): an exception stops the sequence. \<open>gather2\<close> is \<open>asyncio.gather\<close> of two
  coroutines: both are started and neither is cancelled, so both run to their end,
  and the call raises if one of them raised. The log lists the events of the first
  before those of the second; their real interleaving is not modelled.
\<close>

type_synonym 'a io = "event list \<times> (py_error + 'a)"

definition bind_io :: "'a io \<Rightarrow> ('a \<Rightarrow> 'b io) \<Rightarrow> 'b io" where
  "bind_io m f =
     (case m of
        (evs, Inl e) \<Rightarrow> (evs, Inl e)
      | (evs, Inr x) \<Rightarrow> (case f x of (evs', r) \<Rightarrow> (evs @ evs', r)))"

definition gather2 :: "'a io \<Rightarrow> 'b io \<Rightarrow> ('a \<times> 'b) io" where
  "gather2 m1 m2 =
     (case m1 of (evs1, r1) \<Rightarrow> case m2 of (evs2, r2) \<Rightarrow>
        (evs1 @ evs2,
         case r1 of Inl e \<Rightarrow> Inl e
         | Inr a \<Rightarrow> (case r2 of Inl e \<Rightarrow> Inl e | Inr b \<Rightarrow> Inr (a, b))))"

definition generate_silence :: "world \<Rightarrow> pystr \<Rightarrow> nat \<Rightarrow> unit io" where
  "generate_silence w output_file duration_ms =
     ([Run_tool (Anullsrc duration_ms output_file)],
      case run_tool w (Anullsrc duration_ms output_file) of
        None \<Rightarrow> Inr ()
      | Some e \<Rightarrow> Inl e)"

text \<open>
  The loop of \<open>text_to_speech\<close> over \<open>range(MAX_RETRIES)\<close>; the last argument is
  what is left of the range.
\<close>

fun tts_attempts :: "world \<Rightarrow> pystr \<Rightarrow> pystr \<Rightarrow> pystr \<Rightarrow> nat list \<Rightarrow> bool io" where
  "tts_attempts w text voice output_file [] = ([], Inr False)"
| "tts_attempts w text voice output_file (attempt # rest) =
     (case backend w text voice output_file attempt of
        None \<Rightarrow> ([Synthesize text voice RATE output_file], Inr True)
      | Some e \<Rightarrow>
          if int attempt < int MAX_RETRIES - 1 then
            bind_io
              ([Synthesize text voice RATE output_file,
                Print (Msg_retry (attempt + 1) MAX_RETRIES text), Sleep 1], Inr ())
              (\<lambda>_. tts_attempts w text voice output_file rest)
          else
            bind_io
              ([Synthesize text voice RATE output_file, Print (Msg_warning text e)], Inr ())
              (\<lambda>_. bind_io (generate_silence w output_file 100) (\<lambda>_. ([], Inr False))))"

definition text_to_speech :: "world \<Rightarrow> pystr \<Rightarrow> pystr \<Rightarrow> pystr \<Rightarrow> bool io" where
  "text_to_speech w text voice output_file =
     tts_attempts w text voice output_file [0..<MAX_RETRIES]"

definition merge_audio_files :: "world \<Rightarrow> pystr list \<Rightarrow> pystr \<Rightarrow> pystr \<Rightarrow> unit io" where
  "merge_audio_files w audio_files output_file temp_dir =
     (let list_file = path_join temp_dir (ascii ''filelist.txt'') in
      ([Write_lines list_file
          (map (\<lambda>audio_file. ascii ''file '' @ [39] @ audio_file @ [39, 10]) audio_files),
        Run_tool (Concat list_file output_file)],
       case run_tool w (Concat list_file output_file) of
         None \<Rightarrow> Inr ()
       | Some e \<Rightarrow> Inl e))"

text \<open>
  The loop of \<open>convert_file_to_mp3\<close> over \<open>enumerate(words)\<close>. \<open>process_entry\<close>
  is the \<open>if english is None ... else ...\<close> of its body for entry \<open>i\<close>, returning
  \<open>audio_files\<close> as extended; \<open>process_words\<close> is the loop, which appends the long
  pause after every entry but the last. \<open>n\<close> is \<open>len(words)\<close>.
\<close>

definition process_entry ::
  "world \<Rightarrow> pystr \<Rightarrow> pystr \<Rightarrow> nat \<Rightarrow> nat \<Rightarrow> word_entry \<Rightarrow> pystr list \<Rightarrow> pystr list io"
where
  "process_entry w temp_dir short_silence_file n i entry audio_files =
     (case entry of (chinese, english) \<Rightarrow>
        (case english of
           None \<Rightarrow>
             (let chinese_file = path_join temp_dir (ascii ''word_'' @ str_nat i @ ascii ''_zh.mp3'') in
              bind_io ([Print (Msg_single (i + 1) n chinese)], Inr ())
                (\<lambda>_. bind_io (text_to_speech w chinese (chinese_voice w) chinese_file)
                  (\<lambda>_. ([], Inr (audio_files @ [chinese_file])))))
         | Some english \<Rightarrow>
             (let chinese_file = path_join temp_dir (ascii ''word_'' @ str_nat i @ ascii ''_zh.mp3'');
                  english_file = path_join temp_dir (ascii ''word_'' @ str_nat i @ ascii ''_en.mp3'') in
              bind_io ([Print (Msg_pair (i + 1) n chinese english)], Inr ())
                (\<lambda>_. bind_io
                   (gather2 (text_to_speech w chinese (chinese_voice w) chinese_file)
                            (text_to_speech w english (english_voice w) english_file))
                  (\<lambda>_. ([], Inr (audio_files @ [chinese_file, short_silence_file, english_file])))))))"

fun process_words ::
  "world \<Rightarrow> pystr \<Rightarrow> pystr \<Rightarrow> pystr \<Rightarrow> nat \<Rightarrow> (nat \<times> word_entry) list \<Rightarrow> pystr list \<Rightarrow> pystr list io"
where
  "process_words w temp_dir silence_file short_silence_file n [] audio_files =
     ([], Inr audio_files)"
| "process_words w temp_dir silence_file short_silence_file n ((i, entry) # rest) audio_files =
     bind_io (process_entry w temp_dir short_silence_file n i entry audio_files)
       (\<lambda>audio_files.
          process_words w temp_dir silence_file short_silence_file n rest
            (if int i < int n - 1 then audio_files @ [silence_file] else audio_files))"

definition convert_file_to_mp3 :: "world \<Rightarrow> pystr \<Rightarrow> pystr option \<Rightarrow> bool io" where
  "convert_file_to_mp3 w input_file output_opt =
     (let output_file =
            (case output_opt of None \<Rightarrow> splitext_root input_file @ ascii ''.mp3'' | Some p \<Rightarrow> p)
      in
      bind_io ([Print (Msg_processing input_file), Print (Msg_output output_file)],
               parse_word_file (read_file w input_file))
        (\<lambda>words.
           if words = [] then ([Print Msg_no_words], Inr False)
           else
             let temp_dir = mkdtemp w input_file;
                 silence_file = path_join temp_dir (ascii ''silence.mp3'');
                 short_silence_file = path_join temp_dir (ascii ''short_silence.mp3'')
             in
             bind_io ([Print (Msg_found (length words))], Inr ())
               (\<lambda>_. bind_io (generate_silence w silence_file PAUSE_BETWEEN_WORDS)
               (\<lambda>_. bind_io (generate_silence w short_silence_file PAUSE_BETWEEN_LANGUAGES)
               (\<lambda>_. bind_io
                  (process_words w temp_dir silence_file short_silence_file (length words)
                     (enumerate 0 words) [])
               (\<lambda>audio_files. bind_io ([Print Msg_merging], Inr ())
               (\<lambda>_. bind_io (merge_audio_files w audio_files output_file temp_dir)
               (\<lambda>_. ([Print (Msg_done output_file)], Inr True)))))))))"

text \<open>The loop of \<open>process_directory\<close> over \<open>txt_files\<close>.\<close>

fun process_files :: "world \<Rightarrow> pystr list \<Rightarrow> unit io" where
  "process_files w [] = ([], Inr ())"
| "process_files w (txt_file # rest) =
     bind_io (convert_file_to_mp3 w txt_file None)
       (\<lambda>_. bind_io ([Print Msg_blank], Inr ()) (\<lambda>_. process_files w rest))"

definition process_directory :: "world \<Rightarrow> pystr \<Rightarrow> unit io" where
  "process_directory w directory =
     (let txt_files = glob_txt w directory in
      if txt_files = [] then ([Print (Msg_no_txt directory)], Inr ())
      else bind_io ([Print (Msg_found_txt (length txt_files))], Inr ())
             (\<lambda>_. process_files w txt_files))"

section \<open>Pipeline B: the categorizer\<close>

text \<open>
  A Python \<open>dict\<close> keeps its keys in insertion order: it is modelled as an
  association list with distinct keys. \<open>dict_set d k v\<close> is \<open>d[k] = v\<close>: the value
  of an existing key is replaced in place, a new key is appended.
\<close>

type_synonym ('k, 'v) dict = "('k \<times> 'v) list"

definition dict_set :: "('k, 'v) dict \<Rightarrow> 'k \<Rightarrow> 'v \<Rightarrow> ('k, 'v) dict" where
  "dict_set d k v =
     (if k \<in> fst ` set d then map (\<lambda>(k', v'). if k' = k then (k', v) else (k', v')) d
      else d @ [(k, v)])"

definition dict_get :: "('k, 'v) dict \<Rightarrow> 'k \<Rightarrow> 'v option" where
  "dict_get d k = map_of d k"

text \<open>\<open>load_words\<close>: the loop over the lines of the file, with \<open>words\<close> and \<open>seen\<close>.\<close>

fun load_loop :: "pystr list \<Rightarrow> pystr list \<times> pystr set \<Rightarrow> pystr list \<times> pystr set" where
  "load_loop [] (words, seen) = (words, seen)"
| "load_loop (line # rest) (words, seen) =
     (let word = strip line in
      if word \<noteq> [] \<and> word \<notin> seen then load_loop rest (words @ [word], insert word seen)
      else load_loop rest (words, seen))"

definition load_words :: "pystr list \<Rightarrow> pystr list" where
  "load_words lines = fst (load_loop lines ([], {}))"

text \<open>\<open>'\n'.join(batch)\<close> and \<open>result.split('\n')\<close>; the code point of the newline is 10.\<close>

fun join_nl :: "pystr list \<Rightarrow> pystr" where
  "join_nl [] = []"
| "join_nl [x] = x"
| "join_nl (x # y # rest) = x @ [10] @ join_nl (y # rest)"

fun split_nl :: "pystr \<Rightarrow> pystr list" where
  "split_nl [] = [[]]"
| "split_nl (c # cs) =
     (if c = 10 then [] # split_nl cs
      else (case split_nl cs of [] \<Rightarrow> [[c]] | p # ps \<Rightarrow> (c # p) # ps))"

text \<open>
  What \<open>translate_words\<close> does to the outside, in order: the call
  \<open>translator.translate(text)\<close> on a whole batch and the one on a single word, each
  with its outcome (\<open>None\<close> when it raised), the messages printed, and the cache
  file rewritten with the mapping.
\<close>

datatype tr_event =
    Translate_batch pystr "pystr option"
  | Translate_word pystr "pystr option"
  | Print_cache_loaded nat
  | Print_translating nat
  | Print_progress nat nat
  | Print_batch_failed
  | Save_cache pystr "(pystr, pystr) dict"
  | Print_cache_saved pystr

text \<open>
  The cache file as \<open>translate_words\<close> finds it: absent, present and loaded by
  \<open>json.load\<close>, or present and unreadable (the \<open>except: pass\<close> of the source).
\<close>

datatype cache_state = No_cache_file | Unreadable_cache | Cached "(pystr, pystr) dict"

text \<open>
  The translation backend: \<open>translator k text\<close> is the outcome of the \<open>k\<close>-th call
  of a run (counted from 0) when that call is made on \<open>text\<close>, \<open>None\<close> when it
  raises. The state threaded through the loops is the number of calls made so far,
  \<open>translations\<close> and the log.
\<close>

type_synonym tr_state = "nat \<times> (pystr, pystr) dict \<times> tr_event list"

text \<open>The inner loop \<open>for word in batch\<close> after a failed batch.\<close>

fun translate_each :: "(nat \<Rightarrow> pystr \<Rightarrow> pystr option) \<Rightarrow> pystr list \<Rightarrow> tr_state \<Rightarrow> tr_state" where
  "translate_each translator [] st = st"
| "translate_each translator (word # rest) (k, translations, evs) =
     (case translator k word of
        Some trans' \<Rightarrow>
          translate_each translator rest
            (k + 1, dict_set translations word trans', evs @ [Translate_word word (Some trans')])
      | None \<Rightarrow>
          translate_each translator rest
            (k + 1, dict_set translations word word, evs @ [Translate_word word None]))"

text \<open>\<open>for word, trans in zip(batch, translated): translations[word] = trans.strip()\<close>\<close>

definition assign_batch ::
  "pystr list \<Rightarrow> pystr list \<Rightarrow> (pystr, pystr) dict \<Rightarrow> (pystr, pystr) dict" where
  "assign_batch batch translated translations =
     fold (\<lambda>(word, trans') d. dict_set d word (strip trans')) (zip batch translated) translations"

text \<open>
  The outer loop \<open>for i in range(0, len(words_to_translate), batch_size)\<close>; the
  third argument is what is left of the range.
\<close>

fun translate_batches ::
  "(nat \<Rightarrow> pystr \<Rightarrow> pystr option) \<Rightarrow> pystr list \<Rightarrow> nat list \<Rightarrow> tr_state \<Rightarrow> tr_state" where
  "translate_batches translator words_to_translate [] st = st"
| "translate_batches translator words_to_translate (i # rest) (k, translations, evs) =
     (let batch_size = 50;
          batch = take batch_size (drop i words_to_translate);
          text = join_nl batch
      in
      case translator k text of
        Some result \<Rightarrow>
          translate_batches translator words_to_translate rest
            (k + 1,
             assign_batch batch (split_nl result) translations,
             evs @ [Translate_batch text (Some result)] @
               (if (i + batch_size) mod 200 = 0
                then [Print_progress (min (i + batch_size) (length words_to_translate))
                        (length words_to_translate)]
                else []))
      | None \<Rightarrow>
          translate_batches translator words_to_translate rest
            (translate_each translator batch
               (k + 1, translations, evs @ [Translate_batch text None, Print_batch_failed])))"

text \<open>
  \<open>translate_words\<close>: \<open>cache_file\<close> is the optional argument and \<open>cache\<close> what is
  found at that path. A \<open>cache_file\<close> that is \<open>None\<close> or the empty string is
  false in \<open>if cache_file\<close>. The result is the log and the mapping returned.
\<close>

definition translate_words ::
  "(nat \<Rightarrow> pystr \<Rightarrow> pystr option) \<Rightarrow> cache_state \<Rightarrow> pystr list \<Rightarrow> pystr option
     \<Rightarrow> tr_event list \<times> (pystr, pystr) dict" where
  "translate_words translator cache words cache_file =
     (let use_cache = (case cache_file of None \<Rightarrow> False | Some p \<Rightarrow> p \<noteq> []);
          loaded = (if use_cache then (case cache of Cached d \<Rightarrow> Some d | _ \<Rightarrow> None) else None);
          translations = (case loaded of None \<Rightarrow> [] | Some d \<Rightarrow> d);
          evs = (case loaded of None \<Rightarrow> [] | Some d \<Rightarrow> [Print_cache_loaded (length d)]);
          words_to_translate = filter (\<lambda>w. w \<notin> fst ` set translations) words
      in
      if words_to_translate \<noteq> [] then
        (case translate_batches translator words_to_translate
                [i \<leftarrow> [0..<length words_to_translate]. i mod 50 = 0]
                (0, translations, evs @ [Print_translating (length words_to_translate)]) of
           (k, translations', evs') \<Rightarrow>
             (evs' @ (case cache_file of
                        None \<Rightarrow> []
                      | Some p \<Rightarrow> if p \<noteq> [] then [Save_cache p translations', Print_cache_saved p]
                                   else []),
              translations'))
      else (evs, translations))"

text \<open>
  \<open>words[start:end]\<close> with Python's treatment of negative and out-of-range
  bounds.
\<close>

definition py_slice :: "'a list \<Rightarrow> int \<Rightarrow> int \<Rightarrow> 'a list" where
  "py_slice xs start stop =
     (let n = int (length xs);
          s = (if start < 0 then max (start + n) 0 else min start n);
          e = (if stop < 0 then max (stop + n) 0 else min stop n)
      in take (nat (e - s)) (drop (nat s) xs))"

text \<open>
  The inner loop \<open>for i in range(num_parts)\<close> of \<open>split_large_categories\<close>; the
  code point of the underscore is 95.
\<close>

fun split_parts ::
  "pystr \<Rightarrow> pystr list \<Rightarrow> int \<Rightarrow> int \<Rightarrow> nat list \<Rightarrow> (pystr, pystr list) dict
     \<Rightarrow> (pystr, pystr list) dict" where
  "split_parts cat_name words max_size num_parts [] result = result"
| "split_parts cat_name words max_size num_parts (i # rest) result =
     (let start = int i * max_size;
          stop = min ((int i + 1) * max_size) (int (length words));
          sub_words = py_slice words start stop;
          sub_name = (if num_parts > 1 then cat_name @ [95] @ str_nat (i + 1) else cat_name)
      in split_parts cat_name words max_size num_parts rest (dict_set result sub_name sub_words))"

text \<open>The outer loop \<open>for cat_name, words in categories.items()\<close>.\<close>

fun split_loop ::
  "(pystr, pystr list) dict \<Rightarrow> int \<Rightarrow> (pystr, pystr list) dict
     \<Rightarrow> py_error + (pystr, pystr list) dict" where
  "split_loop [] max_size result = Inr result"
| "split_loop ((cat_name, words) # rest) max_size result =
     (if int (length words) \<le> max_size then
        split_loop rest max_size (dict_set result cat_name words)
      else if max_size = 0 then Inl ZeroDivisionError
      else
        let num_parts = (int (length words) + max_size - 1) div max_size in
        split_loop rest max_size
          (split_parts cat_name words max_size num_parts [0..<nat num_parts] result))"

definition split_large_categories ::
  "(pystr, pystr list) dict \<Rightarrow> int \<Rightarrow> py_error + (pystr, pystr list) dict" where
  "split_large_categories categories max_size = split_loop categories max_size []"

text \<open>
  \<open>s.replace(old, new)\<close>: the occurrences of \<open>old\<close> are found from left to right
  without overlap and each is replaced by \<open>new\<close>; for an empty \<open>old\<close> Python puts
  \<open>new\<close> before every character and at the end.
\<close>

function py_replace :: "pystr \<Rightarrow> pystr \<Rightarrow> pystr \<Rightarrow> pystr" where
  "py_replace old new [] = (if old = [] then new else [])"
| "py_replace old new (c # cs) =
     (if old = [] then new @ [c] @ py_replace old new cs
      else if take (length old) (c # cs) = old
        then new @ py_replace old new (drop (length old) (c # cs))
      else c # py_replace old new cs)"
  by pat_completeness auto
termination
  by (relation "measure (\<lambda>(old, new, s). length s)") auto

text \<open>
  \<open>save_categories\<close>: for each category, in the order of the mapping, the file
  written (its path and the strings passed to \<open>f.write\<close>, one for each line). The
  title is \<open>cat_name.replace('_', '')\<close>, the underscore being code point 95;
  \<open>sorted(words)\<close> orders strings by code points, which is the lexicographic order
  on their lists.
\<close>

definition category_file :: "(pystr, pystr) dict \<Rightarrow> pystr \<Rightarrow> pystr list \<Rightarrow> pystr list" where
  "category_file translations cat_name words =
     (let display_name = py_replace [95] [] cat_name in
      (display_name @ [10]) #
      map (\<lambda>word.
             (let chinese = (case dict_get translations word of None \<Rightarrow> word | Some t \<Rightarrow> t)
              in chinese @ [32] @ word @ [10]))
          (sort words))"

definition save_categories ::
  "(pystr, pystr list) dict \<Rightarrow> pystr \<Rightarrow> (pystr, pystr) dict \<Rightarrow> (pystr \<times> pystr list) list" where
  "save_categories categories output_dir translations =
     map (\<lambda>(cat_name, words).
            (path_join output_dir (cat_name @ ascii ''.txt''),
             category_file translations cat_name words))
         categories"

section \<open>The specification's reading of the parser\<close>

text \<open>
  The parser as the specification words it: keep the lines that are neither blank
  nor comments, and split each kept line, trimmed, at its first run of whitespace.
\<close>

definition blank_line :: "pystr \<Rightarrow> bool" where
  "blank_line raw \<longleftrightarrow> strip raw = []"

definition comment_line :: "pystr \<Rightarrow> bool" where
  "comment_line raw \<longleftrightarrow> startswith_hash (strip raw)"

definition spec_entry :: "pystr \<Rightarrow> word_entry" where
  "spec_entry line =
     (let rest = dropWhile isspace (dropWhile (\<lambda>c. \<not> isspace c) line)
      in (takeWhile (\<lambda>c. \<not> isspace c) line, if rest = [] then None else Some rest))"

definition spec_parse :: "pystr list \<Rightarrow> word_entry list" where
  "spec_parse lines =
     map (\<lambda>raw. spec_entry (strip raw))
       (filter (\<lambda>raw. \<not> blank_line raw \<and> \<not> comment_line raw) lines)"

section \<open>The specification's reading of the audio assembly\<close>

definition zh_file :: "pystr \<Rightarrow> nat \<Rightarrow> pystr" where
  "zh_file temp_dir i = path_join temp_dir (ascii ''word_'' @ str_nat i @ ascii ''_zh.mp3'')"

definition en_file :: "pystr \<Rightarrow> nat \<Rightarrow> pystr" where
  "en_file temp_dir i = path_join temp_dir (ascii ''word_'' @ str_nat i @ ascii ''_en.mp3'')"

definition spec_slot :: "pystr \<Rightarrow> pystr \<Rightarrow> nat \<times> word_entry \<Rightarrow> pystr list" where
  "spec_slot temp_dir short_silence_file ie =
     (case ie of (i, chinese, english) \<Rightarrow>
        (case english of
           None \<Rightarrow> [zh_file temp_dir i]
         | Some _ \<Rightarrow> [zh_file temp_dir i, short_silence_file, en_file temp_dir i]))"

fun spec_fragments :: "pystr \<Rightarrow> pystr \<Rightarrow> pystr \<Rightarrow> (nat \<times> word_entry) list \<Rightarrow> pystr list" where
  "spec_fragments temp_dir silence_file short_silence_file [] = []"
| "spec_fragments temp_dir silence_file short_silence_file [ie] =
     spec_slot temp_dir short_silence_file ie"
| "spec_fragments temp_dir silence_file short_silence_file (ie # next # rest) =
     spec_slot temp_dir short_silence_file ie @ [silence_file] @
     spec_fragments temp_dir silence_file short_silence_file (next # rest)"

fun written :: "event \<Rightarrow> pystr list list" where
  "written (Write_lines p content) = [content]"
| "written _ = []"

definition handed :: "event list \<Rightarrow> pystr list list" where
  "handed evs = concat (map written evs)"

definition file_line :: "pystr \<Rightarrow> pystr" where
  "file_line audio_file = ascii ''file '' @ [39] @ audio_file @ [39, 10]"

definition output_name :: "pystr \<Rightarrow> pystr option \<Rightarrow> pystr" where
  "output_name input_file output_opt =
     (case output_opt of None \<Rightarrow> splitext_root input_file @ ascii ''.mp3'' | Some p \<Rightarrow> p)"

definition job_fragments :: "world \<Rightarrow> pystr \<Rightarrow> word_entry list \<Rightarrow> pystr list" where
  "job_fragments w input_file words =
     (let temp_dir = mkdtemp w input_file in
      spec_fragments temp_dir (path_join temp_dir (ascii ''silence.mp3''))
        (path_join temp_dir (ascii ''short_silence.mp3'')) (enumerate 0 words))"

section \<open>Tool failures, and example worlds\<close>

definition tool_failed :: "world \<Rightarrow> event list \<Rightarrow> bool" where
  "tool_failed w evs \<longleftrightarrow> (\<exists>cmd\<in>set (concat (map (\<lambda>ev. case ev of Run_tool cmd \<Rightarrow> [cmd] | _ \<Rightarrow> []) evs)). run_tool w cmd \<noteq> None)"

definition raises_iff_tool_failed :: "world \<Rightarrow> 'a io \<Rightarrow> bool" where
  "raises_iff_tool_failed w m \<longleftrightarrow> (isl (snd m) \<longleftrightarrow> tool_failed w (fst m))"

definition backend_calls :: "event list \<Rightarrow> event list" where
  "backend_calls evs = filter (\<lambda>ev. case ev of Synthesize _ _ _ _ \<Rightarrow> True | _ \<Rightarrow> False) evs"

definition pacing :: "event list \<Rightarrow> event list" where
  "pacing evs =
     filter (\<lambda>ev. case ev of Synthesize _ _ _ _ \<Rightarrow> True | Sleep _ \<Rightarrow> True | _ \<Rightarrow> False) evs"

definition example_lines :: "pystr list" where
  "example_lines =
     [[33529, 26524, 32] @ ascii ''apple'' @ [10], [39321, 34121, 32] @ ascii ''banana'']"

definition example_words :: "word_entry list" where
  "example_words =
     [([33529, 26524], Some (ascii ''apple'')), ([39321, 34121], Some (ascii ''banana''))]"

definition good_world :: world where
  "good_world =
     \<lparr> read_file = (\<lambda>p. if p = ascii ''words.txt'' then Some example_lines
                        else if p = ascii ''empty.txt'' then Some [ascii ''# nothing'', [10]]
                        else None),
       backend = (\<lambda>text voice out attempt. None),
       run_tool = (\<lambda>cmd. None),
       mkdtemp = (\<lambda>p. ascii ''/tmp/job''),
       glob_txt = (\<lambda>d. [ascii ''empty.txt'', ascii ''words.txt'']),
       chinese_voice = ascii ''zh-CN-XiaoxiaoNeural'',
       english_voice = ascii ''en-US-JennyNeural'' \<rparr>"

definition silent_world :: world where
  "silent_world = good_world \<lparr> backend := (\<lambda>text voice out attempt. Some (ascii ''no network'')) \<rparr>"

definition broken_fallback_world :: world where
  "broken_fallback_world =
     silent_world \<lparr> run_tool :=
       (\<lambda>cmd. case cmd of
                Anullsrc ms out \<Rightarrow> if ms = 100 then Some CalledProcessError else None
              | Concat list_file out \<Rightarrow> None) \<rparr>"

definition no_concat_world :: world where
  "no_concat_world =
     good_world \<lparr> run_tool :=
       (\<lambda>cmd. case cmd of Anullsrc ms out \<Rightarrow> None | Concat list_file out \<Rightarrow> Some CalledProcessError) \<rparr>"

definition no_ffmpeg_world :: world where
  "no_ffmpeg_world = good_world \<lparr> run_tool := (\<lambda>cmd. Some CalledProcessError) \<rparr>"

section \<open>The specification's reading of the category files\<close>

definition remove_underscores :: "pystr \<Rightarrow> pystr" where
  "remove_underscores s = filter (\<lambda>c. c \<noteq> 95) s"

definition spec_line :: "(pystr, pystr) dict \<Rightarrow> pystr \<Rightarrow> pystr" where
  "spec_line translations word =
     (case dict_get translations word of None \<Rightarrow> word | Some t \<Rightarrow> t) @ [32] @ word @ [10]"

section \<open>The specification's reading of the category split\<close>

definition spec_parts :: "pystr \<Rightarrow> pystr list \<Rightarrow> (pystr \<times> pystr list) list" where
  "spec_parts cat_name words =
     (if length words \<le> 60 then [(cat_name, words)]
      else map (\<lambda>i. (cat_name @ [95] @ str_nat (i + 1), take 60 (drop (i * 60) words)))
             [0..<(length words + 59) div 60])"

definition spec_split :: "(pystr, pystr list) dict \<Rightarrow> (pystr, pystr list) dict" where
  "spec_split categories = concat (map (\<lambda>(cat_name, words). spec_parts cat_name words) categories)"

definition colliding_categories :: "(pystr, pystr list) dict" where
  "colliding_categories = [(ascii ''A_1'', [ascii ''x'']), (ascii ''A'', map str_nat [1..<62])]"

definition plain_categories :: "(pystr, pystr list) dict" where
  "plain_categories = [(ascii ''food'', map str_nat [1..<62]), (ascii ''time'', [ascii ''day''])]"

section \<open>The specification's reading of the translation step\<close>

definition batch_texts :: "tr_event list \<Rightarrow> pystr list" where
  "batch_texts evs = concat (map (\<lambda>ev. case ev of Translate_batch t r \<Rightarrow> [t] | _ \<Rightarrow> []) evs)"

definition word_texts :: "tr_event list \<Rightarrow> pystr list" where
  "word_texts evs = concat (map (\<lambda>ev. case ev of Translate_word t r \<Rightarrow> [t] | _ \<Rightarrow> []) evs)"

definition spec_batches :: "pystr list \<Rightarrow> pystr list list" where
  "spec_batches xs = map (\<lambda>j. take 50 (drop (j * 50) xs)) [0..<(length xs + 49) div 50]"

definition example_cache :: "(pystr, pystr) dict" where
  "example_cache = [(ascii ''cat'', [29483])]"

definition example_translator :: "nat \<Rightarrow> pystr \<Rightarrow> pystr option" where
  "example_translator k text = Some [29399]"

section \<open>Properties of the parser\<close>

lemma rev_dropWhile_prefix: "xs = rev (dropWhile P (rev xs)) @ rev (takeWhile P (rev xs))"
  by (metis rev_append rev_rev_ident takeWhile_dropWhile_id)

lemma strip_prefix: "dropWhile isspace s = strip s @ rev (takeWhile isspace (rev (dropWhile isspace s)))"
  unfolding strip_def by (rule rev_dropWhile_prefix)

lemma strip_hd: assumes "strip s \<noteq> []" shows "\<not> isspace (hd (strip s))"
proof -
  let ?t = "dropWhile isspace s"
  have ne: "?t \<noteq> []" using assms strip_prefix[of s] by (metis append_is_Nil_conv)
  then have "\<not> isspace (hd ?t)" by (rule hd_dropWhile)
  moreover have "hd ?t = hd (strip s)" using assms strip_prefix[of s] by (metis hd_append2)
  ultimately show ?thesis by simp
qed

lemma strip_last: assumes "strip s \<noteq> []" shows "\<not> isspace (last (strip s))"
proof -
  let ?u = "dropWhile isspace (rev (dropWhile isspace s))"
  have "?u \<noteq> []" using assms by (simp add: strip_def)
  then have "\<not> isspace (hd ?u)" by (rule hd_dropWhile)
  moreover have "last (strip s) = hd ?u" using \<open>?u \<noteq> []\<close> by (simp add: strip_def last_rev)
  ultimately show ?thesis by simp
qed

lemma parse_lines_acc: "parse_lines lines acc = acc @ concat (map parse_line lines)"
  by (induction lines arbitrary: acc) simp_all

lemma dropWhile_strip: "dropWhile isspace (strip s) = strip s"
proof (cases "strip s = []")
  case True then show ?thesis by simp
next
  case False
  then have "\<not> isspace (hd (strip s))" by (rule strip_hd)
  with False show ?thesis by (cases "strip s") simp_all
qed

lemma split_none_1_strip:
  assumes "strip raw \<noteq> []"
  shows "split_none_1 (strip raw) =
     (case spec_entry (strip raw) of (p, None) \<Rightarrow> [p] | (p, Some r) \<Rightarrow> [p, r])"
proof -
  let ?t = "strip raw"
  let ?r = "dropWhile isspace (dropWhile (\<lambda>c. \<not> isspace c) ?t)"
  let ?p = "takeWhile (\<lambda>c. \<not> isspace c) ?t"
  have s: "split_none_1 ?t = (if ?r = [] then [?p] else [?p, ?r])"
    using assms by (simp only: split_none_1_def Let_def dropWhile_strip if_False)
  have e: "spec_entry ?t = (?p, if ?r = [] then None else Some ?r)"
    by (simp only: spec_entry_def Let_def)
  show ?thesis
  proof (cases "?r = []")
    case True
    then show ?thesis by (simp only: s e if_True simp_thms prod.case option.case)
  next
    case False
    then show ?thesis by (simp only: s e if_False simp_thms prod.case option.case)
  qed
qed

lemma parse_line_spec:
  "parse_line raw = (if \<not> blank_line raw \<and> \<not> comment_line raw then [spec_entry (strip raw)] else [])"
proof (cases "strip raw = [] \<or> startswith_hash (strip raw)")
  case True
  then show ?thesis by (auto simp: parse_line_def blank_line_def comment_line_def)
next
  case False
  then have ne: "strip raw \<noteq> []" by simp
  obtain p r where e: "spec_entry (strip raw) = (p, r)" by (cases "spec_entry (strip raw)")
  have "split_none_1 (strip raw) = (case r of None \<Rightarrow> [p] | Some r' \<Rightarrow> [p, r'])"
    using split_none_1_strip[OF ne] e by simp
  then have "parse_line raw = [(p, r)]"
    using False unfolding parse_line_def Let_def by (cases r) simp_all
  then show ?thesis using False e by (simp add: blank_line_def comment_line_def)
qed

lemma parse_lines_spec: "parse_lines lines [] = spec_parse lines"
proof -
  have "concat (map parse_line lines) = spec_parse lines"
    unfolding spec_parse_def by (induction lines) (simp_all add: parse_line_spec)
  then show ?thesis by (simp add: parse_lines_acc)
qed

lemma isspace_hash: "\<not> isspace 35"
  by (simp add: isspace_def)

lemma startswith_hash_strip: assumes "startswith_hash l" shows "comment_line l"
proof -
  obtain rest where l: "l = 35 # rest" using assms by (cases l) (simp_all add: startswith_hash_def)
  have d: "dropWhile isspace l = l" using l isspace_hash by simp
  have "dropWhile isspace (rev l) \<noteq> []" using l isspace_hash by (simp add: dropWhile_eq_Nil_conv)
  then have ne: "strip l \<noteq> []" by (simp add: strip_def d)
  have "l = strip l @ rev (takeWhile isspace (rev l))" using strip_prefix[of l] d by simp
  then have "hd (strip l) = hd l" using ne by (metis hd_append2)
  then show ?thesis using ne l by (cases "strip l") (simp_all add: comment_line_def startswith_hash_def)
qed

lemma spec_entry_shape:
  assumes "\<not> blank_line l"
  shows "(case spec_entry (strip l) of
            (p, None) \<Rightarrow> strip l = p
          | (p, Some r) \<Rightarrow> (\<exists>ws. ws \<noteq> [] \<and> list_all isspace ws \<and> strip l = p @ ws @ r
                               \<and> r \<noteq> [] \<and> \<not> isspace (hd r)))
         \<and> fst (spec_entry (strip l)) \<noteq> []
         \<and> list_all (\<lambda>c. \<not> isspace c) (fst (spec_entry (strip l)))"
proof -
  define t where "t = strip l"
  define p where "p = takeWhile (\<lambda>c. \<not> isspace c) t"
  define d where "d = dropWhile (\<lambda>c. \<not> isspace c) t"
  define ws where "ws = takeWhile isspace d"
  define r where "r = dropWhile isspace d"
  have ne: "t \<noteq> []" using assms by (simp add: blank_line_def t_def)
  have hd: "\<not> isspace (hd t)" using ne unfolding t_def by (rule strip_hd)
  have p_ne: "p \<noteq> []" using ne hd unfolding p_def by (cases t) simp_all
  have p_ns: "list_all (\<lambda>c. \<not> isspace c) p"
    unfolding p_def list_all_iff by (auto dest: set_takeWhileD)
  have tp: "t = p @ d" unfolding p_def d_def by (simp only: takeWhile_dropWhile_id)
  have dw: "d = ws @ r" unfolding ws_def r_def by (simp only: takeWhile_dropWhile_id)
  have e: "spec_entry t = (p, if r = [] then None else Some r)"
    unfolding spec_entry_def Let_def p_def r_def d_def by (rule refl)
  show ?thesis
  proof (cases "r = []")
    case True
    have "d = []"
    proof (rule ccontr)
      assume dne: "d \<noteq> []"
      have "last (p @ d) = last d" using dne by (rule last_appendR)
      then have "last t = last d" by (simp only: tp[symmetric])
      moreover have "\<not> isspace (last t)" using ne unfolding t_def by (rule strip_last)
      moreover have "isspace (last d)"
      proof -
        have "\<forall>x\<in>set d. isspace x" using True unfolding r_def by (simp only: dropWhile_eq_Nil_conv)
        moreover have "last d \<in> set d" using dne by (rule last_in_set)
        ultimately show ?thesis by blast
      qed
      ultimately show False by simp
    qed
    then have tp': "strip l = p" using tp unfolding t_def by simp
    have e1: "spec_entry (strip l) = (p, None)" using e True unfolding t_def by simp
    show ?thesis unfolding e1 using tp' p_ne p_ns by simp
  next
    case False
    have d_ne: "d \<noteq> []" using False unfolding r_def by auto
    have "\<not> \<not> isspace (hd d)" using d_ne unfolding d_def by (rule hd_dropWhile)
    then have ws_ne: "ws \<noteq> []" using d_ne unfolding ws_def by (cases d) simp_all
    have ws_sp: "list_all isspace ws" unfolding ws_def list_all_iff by (auto dest: set_takeWhileD)
    have rh: "\<not> isspace (hd r)" using False unfolding r_def by (rule hd_dropWhile)
    have "strip l = p @ ws @ r" using tp dw unfolding t_def by simp
    then have ex: "\<exists>ws. ws \<noteq> [] \<and> list_all isspace ws \<and> strip l = p @ ws @ r \<and> r \<noteq> [] \<and> \<not> isspace (hd r)"
      using ws_ne ws_sp False rh by blast
    have e2: "spec_entry (strip l) = (p, Some r)" using e False unfolding t_def by simp
    show ?thesis unfolding e2 using ex p_ne p_ns by simp
  qed
qed


lemma parse_word_file_drop:
  assumes "blank_line raw \<or> startswith_hash raw"
  shows "parse_word_file (Some (before @ raw # after)) = parse_word_file (Some (before @ after))"
proof -
  have "blank_line raw \<or> comment_line raw" using assms startswith_hash_strip by blast
  then have "parse_line raw = []" by (auto simp: parse_line_spec)
  then show ?thesis by (simp add: parse_word_file_def parse_lines_acc)
qed

lemma parse_example:
  "parse_word_file (Some [[33529, 26524, 32] @ ascii ''apple'' @ [10], [39321, 34121, 32] @ ascii ''banana''])
     = Inr [([33529, 26524], Some (ascii ''apple'')), ([39321, 34121], Some (ascii ''banana''))]"
  by (simp add: parse_word_file_def parse_line_def strip_def isspace_def split_none_1_def
      startswith_hash_def ascii_def)

text \<open>
  C2. The parser yields one entry for each line that is neither blank nor a comment,
  in the order of the lines, where a line is blank when nothing is left after
  trimming and a comment when what is left starts with \<open>#\<close>. A blank line and a
  line starting with \<open>#\<close> contribute nothing, whatever surrounds them. The trimmed
  line of an entry is its primary text alone (secondary text absent), or the primary
  text, a non-empty run of whitespace and the secondary text; the primary text is
  never empty and holds no whitespace. The two-line example of the specification
  parses to its two pairs.
\<close>

theorem parse_word_file_entries:
  "parse_word_file (Some lines) = Inr (spec_parse lines)
   \<and> length (spec_parse lines) = length (filter (\<lambda>raw. \<not> blank_line raw \<and> \<not> comment_line raw) lines)
   \<and> (blank_line dropped \<or> startswith_hash dropped \<longrightarrow>
        parse_word_file (Some (before @ dropped # after)) = parse_word_file (Some (before @ after)))
   \<and> (\<not> blank_line kept \<longrightarrow>
        (case spec_entry (strip kept) of
           (p, None) \<Rightarrow> strip kept = p
         | (p, Some r) \<Rightarrow> (\<exists>ws. ws \<noteq> [] \<and> list_all isspace ws \<and> strip kept = p @ ws @ r
                              \<and> r \<noteq> [] \<and> \<not> isspace (hd r)))
        \<and> fst (spec_entry (strip kept)) \<noteq> []
        \<and> list_all (\<lambda>c. \<not> isspace c) (fst (spec_entry (strip kept))))
   \<and> parse_word_file (Some [[33529, 26524, 32] @ ascii ''apple'' @ [10], [39321, 34121, 32] @ ascii ''banana''])
       = Inr [([33529, 26524], Some (ascii ''apple'')), ([39321, 34121], Some (ascii ''banana''))]"
proof -
  have a: "parse_word_file (Some lines) = Inr (spec_parse lines)"
    by (simp add: parse_word_file_def parse_lines_spec)
  have b: "length (spec_parse lines) = length (filter (\<lambda>raw. \<not> blank_line raw \<and> \<not> comment_line raw) lines)"
    by (simp add: spec_parse_def)
  show ?thesis
    using a b parse_word_file_drop[of dropped before after] spec_entry_shape[of kept] parse_example
    by blast
qed

theorem parse_word_file_entries_witness:
  "parse_word_file (Some [ascii '' # note'', ascii ''a  b c '', [32, 10], ascii ''title'']) =
     Inr [(ascii ''a'', Some (ascii ''b c'')), (ascii ''title'', None)]
   \<and> startswith_hash (ascii ''#x y'')
   \<and> parse_word_file (Some ([ascii ''a b''] @ ascii ''#x y'' # [ascii ''c'']))
       = parse_word_file (Some ([ascii ''a b''] @ [ascii ''c'']))
   \<and> \<not> blank_line (ascii '' a  b c '')
   \<and> spec_entry (strip (ascii '' a  b c '')) = (ascii ''a'', Some (ascii ''b c''))
   \<and> (\<exists>ws. ws \<noteq> [] \<and> list_all isspace ws \<and> strip (ascii '' a  b c '') = ascii ''a'' @ ws @ ascii ''b c'')"
proof -
  have h1: "startswith_hash (ascii ''#x y'')" by (simp add: startswith_hash_def ascii_def)
  have h2: "\<not> blank_line (ascii '' a  b c '')"
    by (simp add: blank_line_def strip_def isspace_def ascii_def)
  have e: "spec_entry (strip (ascii '' a  b c '')) = (ascii ''a'', Some (ascii ''b c''))"
    by (simp add: spec_entry_def strip_def isspace_def ascii_def)
  have p: "spec_parse [ascii '' # note'', ascii ''a  b c '', [32, 10], ascii ''title''] =
     [(ascii ''a'', Some (ascii ''b c'')), (ascii ''title'', None)]"
    by (simp add: spec_parse_def spec_entry_def blank_line_def comment_line_def startswith_hash_def
        strip_def isspace_def ascii_def)
  show ?thesis
    using parse_word_file_entries[of "[ascii '' # note'', ascii ''a  b c '', [32, 10], ascii ''title'']"
        "ascii ''#x y''" "[ascii ''a b'']" "[ascii ''c'']" "ascii '' a  b c ''"] h1 h2
    unfolding e p by (simp, blast)
qed

section \<open>Properties of the audio assembly\<close>

lemma bind_io_Inr [simp]: "bind_io (evs, Inr x) f = (evs @ fst (f x), snd (f x))"
  by (simp add: bind_io_def split: prod.splits)

lemma bind_io_Inl [simp]: "bind_io (evs, Inl e) f = (evs, Inl e)"
  by (simp add: bind_io_def)

lemma upt_MAX: "[0..<MAX_RETRIES] = [0, 1, 2]"
  by (simp add: MAX_RETRIES_def upt_rec)

lemma text_to_speech_cases:
  "text_to_speech w text voice out =
     (let s = Synthesize text voice RATE out in
      case backend w text voice out 0 of
        None \<Rightarrow> ([s], Inr True)
      | Some e0 \<Rightarrow>
         (case backend w text voice out 1 of
            None \<Rightarrow> ([s, Print (Msg_retry 1 3 text), Sleep 1, s], Inr True)
          | Some e1 \<Rightarrow>
             (case backend w text voice out 2 of
                None \<Rightarrow> ([s, Print (Msg_retry 1 3 text), Sleep 1,
                           s, Print (Msg_retry 2 3 text), Sleep 1, s], Inr True)
              | Some e2 \<Rightarrow>
                  ([s, Print (Msg_retry 1 3 text), Sleep 1,
                    s, Print (Msg_retry 2 3 text), Sleep 1,
                    s, Print (Msg_warning text e2), Run_tool (Anullsrc 100 out)],
                   case run_tool w (Anullsrc 100 out) of
                     None \<Rightarrow> Inr False
                   | Some e \<Rightarrow> Inl e))))"
  unfolding text_to_speech_def upt_MAX
  by (simp add: MAX_RETRIES_def generate_silence_def Let_def split: option.splits)

lemma handed_append [simp]: "handed (a @ b) = handed a @ handed b"
  by (simp add: handed_def)

lemma handed_Nil [simp]: "handed [] = []"
  by (simp add: handed_def)

lemma handed_Cons [simp]: "handed (x # xs) = written x @ handed xs"
  by (simp add: handed_def)

lemma handed_text_to_speech [simp]: "handed (fst (text_to_speech w text voice out)) = []"
  by (simp add: text_to_speech_cases Let_def split: option.splits)

lemma text_to_speech_tool_ok:
  "run_tool w (Anullsrc 100 out) = None \<Longrightarrow> \<exists>b. snd (text_to_speech w text voice out) = Inr b"
  by (auto simp: text_to_speech_cases Let_def split: option.splits)

lemma fst_bind_io: "fst (bind_io m f) = (case snd m of Inl e \<Rightarrow> fst m | Inr x \<Rightarrow> fst m @ fst (f x))"
  by (cases m) (auto simp: bind_io_def split: sum.splits prod.splits)

lemma snd_bind_io: "snd (bind_io m f) = (case snd m of Inl e \<Rightarrow> Inl e | Inr x \<Rightarrow> snd (f x))"
  by (cases m) (auto simp: bind_io_def split: sum.splits prod.splits)

lemma fst_gather2: "fst (gather2 m1 m2) = fst m1 @ fst m2"
  by (cases m1, cases m2) (auto simp: gather2_def split: sum.splits)

lemma snd_gather2:
  "snd (gather2 m1 m2) =
     (case snd m1 of Inl e \<Rightarrow> Inl e
      | Inr a \<Rightarrow> (case snd m2 of Inl e \<Rightarrow> Inl e | Inr b \<Rightarrow> Inr (a, b)))"
  by (cases m1, cases m2) (auto simp: gather2_def split: sum.splits)

lemma handed_process_entry [simp]:
  "handed (fst (process_entry w td ssf n i entry acc)) = []"
  by (cases entry)
     (auto simp: process_entry_def fst_bind_io fst_gather2 snd_gather2 Let_def
           split: option.splits sum.splits)

lemma snd_process_entry:
  "snd (process_entry w td ssf n i entry acc) = Inr fs \<Longrightarrow> fs = acc @ spec_slot td ssf (i, entry)"
  by (cases entry)
     (auto simp: process_entry_def snd_bind_io snd_gather2 Let_def spec_slot_def zh_file_def en_file_def
           split: option.splits sum.splits)

lemma process_entry_tool_ok:
  assumes "\<And>out. run_tool w (Anullsrc 100 out) = None"
  shows "snd (process_entry w td ssf n i entry acc) = Inr (acc @ spec_slot td ssf (i, entry))"
proof -
  have t: "\<And>text voice out. \<exists>b. snd (text_to_speech w text voice out) = Inr b"
    using assms text_to_speech_tool_ok by blast
  obtain chinese english where e: "entry = (chinese, english)" by (cases entry)
  show ?thesis
  proof (cases english)
    case None
    obtain b where "snd (text_to_speech w chinese (chinese_voice w) (zh_file td i)) = Inr b"
      using t by blast
    then show ?thesis using None e
      by (simp add: process_entry_def snd_bind_io Let_def spec_slot_def zh_file_def)
  next
    case (Some en)
    obtain b where b: "snd (text_to_speech w chinese (chinese_voice w) (zh_file td i)) = Inr b"
      using t by blast
    obtain c where c: "snd (text_to_speech w en (english_voice w) (en_file td i)) = Inr c"
      using t by blast
    show ?thesis using Some e b c
      by (simp add: process_entry_def snd_bind_io snd_gather2 Let_def spec_slot_def zh_file_def en_file_def)
  qed
qed

lemma handed_process_words [simp]:
  "handed (fst (process_words w td sf ssf n ies acc)) = []"
proof (induction ies arbitrary: acc)
  case Nil
  show ?case by simp
next
  case (Cons ie ies)
  obtain i entry where ie: "ie = (i, entry)" by (cases ie)
  show ?case unfolding ie
    by (simp add: fst_bind_io Cons.IH split: sum.splits)
qed

lemma spec_fragments_Cons:
  "spec_fragments td sf ssf (ie # rest) =
     spec_slot td ssf ie @ (if rest = [] then [] else sf # spec_fragments td sf ssf rest)"
  by (cases rest) simp_all

lemma enumerate_Nil_iff [simp]: "enumerate k xs = [] \<longleftrightarrow> xs = []"
  by (cases xs) simp_all

lemma process_words_result:
  "snd (process_words w td sf ssf n (enumerate k ws) acc) = Inr fs \<Longrightarrow> k + length ws = n \<Longrightarrow>
     fs = acc @ spec_fragments td sf ssf (enumerate k ws)"
proof (induction ws arbitrary: k acc)
  case Nil
  then show ?case by simp
next
  case (Cons entry rest)
  from Cons.prems(1) obtain af where
    af: "snd (process_entry w td ssf n k entry acc) = Inr af" and
    r: "snd (process_words w td sf ssf n (enumerate (Suc k) rest)
              (if int k < int n - 1 then af @ [sf] else af)) = Inr fs"
    by (auto simp: snd_bind_io split: sum.splits)
  have af': "af = acc @ spec_slot td ssf (k, entry)" using af by (rule snd_process_entry)
  have n: "Suc k + length rest = n" using Cons.prems(2) by simp
  have fs: "fs = (if int k < int n - 1 then af @ [sf] else af) @ spec_fragments td sf ssf (enumerate (Suc k) rest)"
    using Cons.IH[OF r n] .
  have last: "int k < int n - 1 \<longleftrightarrow> rest \<noteq> []" using n by (cases rest) auto
  show ?case
  proof (cases "rest = []")
    case True
    then show ?thesis using fs af' last by (simp add: spec_fragments_Cons)
  next
    case False
    then show ?thesis using fs af' last by (simp add: spec_fragments_Cons)
  qed
qed

lemma process_words_tool_ok:
  assumes "\<And>out. run_tool w (Anullsrc 100 out) = None"
  shows "k + length ws = n \<Longrightarrow>
     snd (process_words w td sf ssf n (enumerate k ws) acc) = Inr (acc @ spec_fragments td sf ssf (enumerate k ws))"
proof (induction ws arbitrary: k acc)
  case Nil
  then show ?case by simp
next
  case (Cons entry rest)
  have af: "snd (process_entry w td ssf n k entry acc) = Inr (acc @ spec_slot td ssf (k, entry))"
    using assms by (rule process_entry_tool_ok)
  have n: "Suc k + length rest = n" using Cons.prems by simp
  have last: "int k < int n - 1 \<longleftrightarrow> rest \<noteq> []" using n by (cases rest) auto
  show ?case
  proof (cases "rest = []")
    case True
    then show ?thesis using af last by (simp add: snd_bind_io spec_fragments_Cons)
  next
    case False
    then show ?thesis using af last Cons.IH[OF n]
      by (simp add: snd_bind_io spec_fragments_Cons)
  qed
qed

lemma handed_generate_silence [simp]: "handed (fst (generate_silence w out ms)) = []"
  by (simp add: generate_silence_def)

lemma handed_merge [simp]:
  "handed (fst (merge_audio_files w fs out td)) = [map file_line fs]"
  by (simp add: merge_audio_files_def Let_def file_line_def)

lemma convert_empty:
  assumes "read_file w input_file = Some lines" and "parse_lines lines [] = []"
  shows "convert_file_to_mp3 w input_file output_opt =
     ([Print (Msg_processing input_file), Print (Msg_output (output_name input_file output_opt)),
       Print Msg_no_words], Inr False)"
  using assms by (simp add: convert_file_to_mp3_def parse_word_file_def output_name_def Let_def)

lemma convert_handed:
  assumes "read_file w input_file = Some lines"
  shows "handed (fst (convert_file_to_mp3 w input_file output_opt)) = [] \<or>
         handed (fst (convert_file_to_mp3 w input_file output_opt)) =
           [map file_line (job_fragments w input_file (parse_lines lines []))]"
proof (cases "parse_lines lines [] = []")
  case True
  show ?thesis using convert_empty[OF assms True] by simp
next
  case False
  let ?td = "mkdtemp w input_file"
  let ?sf = "path_join ?td (ascii ''silence.mp3'')"
  let ?ssf = "path_join ?td (ascii ''short_silence.mp3'')"
  let ?words = "parse_lines lines []"
  let ?pw = "process_words w ?td ?sf ?ssf (length ?words) (enumerate 0 ?words) []"
  have pw: "\<And>fs. snd ?pw = Inr fs \<Longrightarrow> fs = job_fragments w input_file ?words"
    using process_words_result[of w ?td ?sf ?ssf "length ?words" 0 ?words "[]"]
    by (simp add: job_fragments_def Let_def)
  show ?thesis
  proof (cases "snd ?pw")
    case (Inl e)
    then show ?thesis using assms False
      by (simp add: convert_file_to_mp3_def parse_word_file_def Let_def fst_bind_io snd_bind_io
          split: sum.splits)
  next
    case (Inr fs)
    then have "fs = job_fragments w input_file ?words" by (rule pw)
    then show ?thesis using assms False Inr
      by (simp add: convert_file_to_mp3_def parse_word_file_def Let_def fst_bind_io snd_bind_io
          split: sum.splits)
  qed
qed

lemma convert_True:
  assumes "parse_word_file (read_file w input_file) = Inr words"
      and "snd (convert_file_to_mp3 w input_file output_opt) = Inr True"
  shows "words \<noteq> [] \<and> handed (fst (convert_file_to_mp3 w input_file output_opt)) =
           [map file_line (job_fragments w input_file words)]"
proof -
  obtain lines where l: "read_file w input_file = Some lines" and ws: "words = parse_lines lines []"
    using assms(1) by (auto simp: parse_word_file_def split: option.splits)
  have ne: "words \<noteq> []"
  proof
    assume "words = []"
    then have "snd (convert_file_to_mp3 w input_file output_opt) = Inr False"
      using convert_empty[OF l] ws by simp
    with assms(2) show False by simp
  qed
  let ?td = "mkdtemp w input_file"
  let ?sf = "path_join ?td (ascii ''silence.mp3'')"
  let ?ssf = "path_join ?td (ascii ''short_silence.mp3'')"
  let ?pw = "process_words w ?td ?sf ?ssf (length words) (enumerate 0 words) []"
  have pw: "\<And>fs. snd ?pw = Inr fs \<Longrightarrow> fs = job_fragments w input_file words"
    using process_words_result[of w ?td ?sf ?ssf "length words" 0 words "[]"]
    by (simp add: job_fragments_def Let_def)
  show ?thesis
  proof (cases "snd ?pw")
    case (Inl e)
    then have "snd (convert_file_to_mp3 w input_file output_opt) \<noteq> Inr True"
      using l ne ws
      by (simp add: convert_file_to_mp3_def parse_word_file_def Let_def snd_bind_io
          split: sum.splits)
    with assms(2) show ?thesis by simp
  next
    case (Inr fs)
    then have "fs = job_fragments w input_file words" by (rule pw)
    then have "handed (fst (convert_file_to_mp3 w input_file output_opt)) =
           [map file_line (job_fragments w input_file words)]"
      using l ne ws Inr assms(2)
      by (simp add: convert_file_to_mp3_def parse_word_file_def Let_def fst_bind_io snd_bind_io
          split: sum.splits)
    with ne show ?thesis by simp
  qed
qed

lemma convert_tool_ok:
  assumes "parse_word_file (read_file w input_file) = Inr words"
      and "words \<noteq> []"
      and tools: "\<And>cmd. run_tool w cmd = None"
  shows "snd (convert_file_to_mp3 w input_file output_opt) = Inr True"
proof -
  let ?td = "mkdtemp w input_file"
  let ?sf = "path_join ?td (ascii ''silence.mp3'')"
  let ?ssf = "path_join ?td (ascii ''short_silence.mp3'')"
  have "snd (process_words w ?td ?sf ?ssf (length words) (enumerate 0 words) []) =
          Inr ([] @ spec_fragments ?td ?sf ?ssf (enumerate 0 words))"
    by (rule process_words_tool_ok) (simp_all add: tools)
  then show ?thesis using assms(1,2) tools
    by (simp add: convert_file_to_mp3_def Let_def snd_bind_io generate_silence_def
        merge_audio_files_def)
qed

lemma length_spec_slot:
  "int (length (spec_slot td ssf ie)) = (case snd (snd ie) of None \<Rightarrow> 1 | Some _ \<Rightarrow> 3)"
  by (cases ie) (auto simp: spec_slot_def split: option.splits)

lemma length_spec_fragments:
  "ies \<noteq> [] \<Longrightarrow>
     int (length (spec_fragments td sf ssf ies)) =
       (\<Sum>ie\<leftarrow>ies. case snd (snd ie) of None \<Rightarrow> 1 | Some _ \<Rightarrow> 3) + (int (length ies) - 1)"
proof (induction td sf ssf ies rule: spec_fragments.induct)
  case (1 td sf ssf)
  then show ?case by simp
next
  case (2 td sf ssf ie)
  then show ?case by (simp add: length_spec_slot)
next
  case (3 td sf ssf ie nxt rest)
  then show ?case by (simp add: length_spec_slot)
qed

lemma sum_enumerate:
  "(\<Sum>ie\<leftarrow>enumerate k ws. f (snd ie)) = (\<Sum>e\<leftarrow>ws. f e)"
  by (induction ws arbitrary: k) simp_all

lemma sum_bilingual:
  "\<forall>e\<in>set ws. snd e \<noteq> None \<Longrightarrow>
     (\<Sum>e\<leftarrow>ws. case snd e of None \<Rightarrow> 1 | Some _ \<Rightarrow> (3::int)) = 3 * int (length ws)"
  by (induction ws) (auto split: option.splits)

lemma zh_in_spec_slot: "zh_file td i \<in> set (spec_slot td ssf (i, entry))"
proof -
  obtain c e where "entry = (c, e)" by (cases entry)
  then show ?thesis by (cases e) (simp_all add: spec_slot_def)
qed

lemma zh_in_spec_fragments:
  "(i, entry) \<in> set ies \<Longrightarrow> zh_file td i \<in> set (spec_fragments td sf ssf ies)"
proof (induction ies)
  case Nil
  then show ?case by simp
next
  case (Cons ie ies)
  show ?case
  proof (cases "ie = (i, entry)")
    case True
    then show ?thesis using zh_in_spec_slot[of td i ssf entry] by (simp add: spec_fragments_Cons)
  next
    case False
    then have "(i, entry) \<in> set ies" using Cons.prems by simp
    then have "zh_file td i \<in> set (spec_fragments td sf ssf ies)" and "ies \<noteq> []"
      using Cons.IH by auto
    then show ?thesis by (simp add: spec_fragments_Cons)
  qed
qed

lemma synth_in_tts:
  "Synthesize text voice RATE out \<in> set (fst (text_to_speech w text voice out))"
  by (simp add: text_to_speech_cases Let_def split: option.splits)

lemma synth_process_entry:
  "Synthesize c (chinese_voice w) RATE (zh_file td i) \<in> set (fst (process_entry w td ssf n i (c, e) acc))
   \<and> (\<forall>en. e = Some en \<longrightarrow>
        Synthesize en (english_voice w) RATE (en_file td i) \<in> set (fst (process_entry w td ssf n i (c, e) acc)))"
  by (cases e)
     (auto simp: process_entry_def fst_bind_io fst_gather2 snd_gather2 Let_def zh_file_def en_file_def
        synth_in_tts split: sum.splits)

lemma synth_process_words:
  "snd (process_words w td sf ssf n ies acc) = Inr fs \<Longrightarrow> (i, c, e) \<in> set ies \<Longrightarrow>
     Synthesize c (chinese_voice w) RATE (zh_file td i) \<in> set (fst (process_words w td sf ssf n ies acc))
     \<and> (\<forall>en. e = Some en \<longrightarrow>
          Synthesize en (english_voice w) RATE (en_file td i) \<in> set (fst (process_words w td sf ssf n ies acc)))"
proof (induction ies arbitrary: acc)
  case Nil
  then show ?case by simp
next
  case (Cons ie ies)
  obtain j entry where ie: "ie = (j, entry)" by (cases ie)
  from Cons.prems(1) obtain af where
    af: "snd (process_entry w td ssf n j entry acc) = Inr af" and
    r: "snd (process_words w td sf ssf n ies (if int j < int n - 1 then af @ [sf] else af)) = Inr fs"
    unfolding ie by (auto simp: snd_bind_io split: sum.splits)
  have evs: "fst (process_words w td sf ssf n (ie # ies) acc) =
     fst (process_entry w td ssf n j entry acc) @
     fst (process_words w td sf ssf n ies (if int j < int n - 1 then af @ [sf] else af))"
    unfolding ie using af by (simp add: fst_bind_io)
  show ?case
  proof (cases "(i, c, e) = ie")
    case True
    then have "j = i" and "entry = (c, e)" using ie by auto
    then show ?thesis unfolding evs using synth_process_entry[of c w td i ssf n e acc] by auto
  next
    case False
    then have "(i, c, e) \<in> set ies" using Cons.prems(2) by auto
    from Cons.IH[OF r this] show ?thesis unfolding evs by auto
  qed
qed

lemma synth_convert:
  assumes "parse_word_file (read_file w input_file) = Inr words"
      and "snd (convert_file_to_mp3 w input_file output_opt) = Inr True"
      and "i < length words" and "words ! i = (c, e)"
  shows "Synthesize c (chinese_voice w) RATE (zh_file (mkdtemp w input_file) i)
           \<in> set (fst (convert_file_to_mp3 w input_file output_opt))
     \<and> (\<forall>en. e = Some en \<longrightarrow>
          Synthesize en (english_voice w) RATE (en_file (mkdtemp w input_file) i)
            \<in> set (fst (convert_file_to_mp3 w input_file output_opt)))"
proof -
  let ?td = "mkdtemp w input_file"
  let ?sf = "path_join ?td (ascii ''silence.mp3'')"
  let ?ssf = "path_join ?td (ascii ''short_silence.mp3'')"
  let ?pw = "process_words w ?td ?sf ?ssf (length words) (enumerate 0 words) []"
  have ne: "words \<noteq> []" using assms(3) by auto
  have mem: "(i, c, e) \<in> set (enumerate 0 words)"
    using assms(3,4) by (auto simp: in_set_enumerate_eq)
  obtain fs where fs: "snd ?pw = Inr fs"
    using assms(1,2) ne
    by (cases "snd ?pw")
       (auto simp: convert_file_to_mp3_def Let_def snd_bind_io split: sum.splits)
  have sub: "set (fst ?pw) \<subseteq> set (fst (convert_file_to_mp3 w input_file output_opt))"
    using assms(1,2) ne fs
    by (auto simp: convert_file_to_mp3_def Let_def fst_bind_io snd_bind_io split: sum.splits)
  from synth_process_words[OF fs mem] sub show ?thesis by blast
qed

lemma tool_failed_Nil [simp]: "\<not> tool_failed w []"
  by (simp add: tool_failed_def)

lemma tool_failed_append [simp]: "tool_failed w (a @ b) \<longleftrightarrow> tool_failed w a \<or> tool_failed w b"
  by (auto simp: tool_failed_def)

lemma tool_failed_Cons [simp]:
  "tool_failed w (ev # evs) \<longleftrightarrow>
     (case ev of Run_tool cmd \<Rightarrow> run_tool w cmd \<noteq> None | _ \<Rightarrow> False) \<or> tool_failed w evs"
  by (cases ev) (auto simp: tool_failed_def)

lemma rift_bind:
  assumes "raises_iff_tool_failed w m" and "\<And>x. raises_iff_tool_failed w (f x)"
  shows "raises_iff_tool_failed w (bind_io m f)"
proof (cases "snd m")
  case (Inl e)
  then show ?thesis using assms(1)
    by (simp add: raises_iff_tool_failed_def fst_bind_io snd_bind_io)
next
  case (Inr x)
  then show ?thesis using assms(1) assms(2)[of x]
    by (simp add: raises_iff_tool_failed_def fst_bind_io snd_bind_io)
qed

lemma rift_gather:
  assumes "raises_iff_tool_failed w m1" and "raises_iff_tool_failed w m2"
  shows "raises_iff_tool_failed w (gather2 m1 m2)"
  using assms
  by (auto simp: raises_iff_tool_failed_def fst_gather2 snd_gather2 split: sum.splits)

lemma rift_prints [simp]:
  "raises_iff_tool_failed w ([], Inr x)"
  "raises_iff_tool_failed w ([Print a], Inr x)"
  by (simp_all add: raises_iff_tool_failed_def)

lemma rift_generate_silence: "raises_iff_tool_failed w (generate_silence w out ms)"
  by (simp add: raises_iff_tool_failed_def generate_silence_def split: option.splits)

lemma rift_merge: "raises_iff_tool_failed w (merge_audio_files w fs out td)"
  by (simp add: raises_iff_tool_failed_def merge_audio_files_def Let_def split: option.splits)

lemma rift_tts: "raises_iff_tool_failed w (text_to_speech w text voice out)"
  by (simp add: raises_iff_tool_failed_def text_to_speech_cases Let_def split: option.splits)

lemma rift_process_entry: "raises_iff_tool_failed w (process_entry w td ssf n i entry acc)"
proof -
  obtain c e where entry: "entry = (c, e)" by (cases entry)
  show ?thesis unfolding entry process_entry_def Let_def
    by (cases e)
       (auto intro!: rift_bind rift_gather rift_tts rift_prints simp del: bind_io_Inr bind_io_Inl)
qed

lemma rift_process_words: "raises_iff_tool_failed w (process_words w td sf ssf n ies acc)"
proof (induction ies arbitrary: acc)
  case Nil
  show ?case by simp
next
  case (Cons ie ies)
  obtain i entry where ie: "ie = (i, entry)" by (cases ie)
  show ?case unfolding ie
    by (auto intro!: rift_bind rift_process_entry Cons.IH simp del: bind_io_Inr bind_io_Inl)
qed

lemma rift_convert:
  assumes "parse_word_file (read_file w input_file) = Inr words"
  shows "raises_iff_tool_failed w (convert_file_to_mp3 w input_file output_opt)"
proof -
  have hdr: "\<And>a b. raises_iff_tool_failed w ([Print a, Print b], Inr words)"
    by (simp add: raises_iff_tool_failed_def)
  show ?thesis unfolding convert_file_to_mp3_def Let_def assms
    by (auto intro!: rift_bind hdr rift_generate_silence rift_process_words rift_merge rift_prints
          simp del: bind_io_Inr bind_io_Inl)
qed

lemma spec_parse_Nil_iff:
  "spec_parse lines = [] \<longleftrightarrow> (\<forall>raw\<in>set lines. blank_line raw \<or> comment_line raw)"
  by (auto simp: spec_parse_def filter_empty_conv)

lemma process_files_Cons_ok:
  "snd (convert_file_to_mp3 w f None) = Inr b \<Longrightarrow>
     process_files w (f # rest) =
       (fst (convert_file_to_mp3 w f None) @ [Print Msg_blank] @ fst (process_files w rest),
        snd (process_files w rest))"
  by (cases "convert_file_to_mp3 w f None") simp

lemma process_files_Cons_raise:
  "snd (convert_file_to_mp3 w f None) = Inl e \<Longrightarrow>
     process_files w (f # rest) = (fst (convert_file_to_mp3 w f None), Inl e)"
  by (cases "convert_file_to_mp3 w f None") simp

lemma process_files_all_ok:
  "\<forall>f\<in>set files. \<exists>b. snd (convert_file_to_mp3 w f None) = Inr b \<Longrightarrow>
     process_files w files =
       (concat (map (\<lambda>f. fst (convert_file_to_mp3 w f None) @ [Print Msg_blank]) files), Inr ())"
proof (induction files)
  case Nil
  show ?case by simp
next
  case (Cons f files)
  then obtain b where b: "snd (convert_file_to_mp3 w f None) = Inr b" by auto
  have "process_files w files =
       (concat (map (\<lambda>f. fst (convert_file_to_mp3 w f None) @ [Print Msg_blank]) files), Inr ())"
    using Cons by simp
  then show ?case using process_files_Cons_ok[OF b, of files] by simp
qed

lemma example_parse: "parse_word_file (read_file good_world (ascii ''words.txt'')) = Inr example_words"
  using parse_example by (simp add: good_world_def example_lines_def example_words_def)

lemma example_fragments:
  "job_fragments good_world (ascii ''words.txt'') example_words =
     [ascii ''/tmp/job/word_0_zh.mp3'', ascii ''/tmp/job/short_silence.mp3'',
      ascii ''/tmp/job/word_0_en.mp3'', ascii ''/tmp/job/silence.mp3'',
      ascii ''/tmp/job/word_1_zh.mp3'', ascii ''/tmp/job/short_silence.mp3'',
      ascii ''/tmp/job/word_1_en.mp3'']"
  by (simp add: job_fragments_def good_world_def example_words_def spec_slot_def zh_file_def
      en_file_def path_join_def str_nat.simps ascii_def enumerate_eq_zip upt_rec)

lemma empty_example:
  "convert_file_to_mp3 good_world (ascii ''empty.txt'') None =
     ([Print (Msg_processing (ascii ''empty.txt'')), Print (Msg_output (ascii ''empty.mp3'')),
       Print Msg_no_words], Inr False)"
  by (simp add: convert_file_to_mp3_def good_world_def parse_word_file_def parse_line_def
      strip_def isspace_def startswith_hash_def splitext_root_def rfind_def ascii_def Let_def upt_rec)

lemma broken_fallback_tts:
  "text_to_speech broken_fallback_world [33529, 26524] (ascii ''zh-CN-XiaoxiaoNeural'')
       (ascii ''/tmp/job/word_0_zh.mp3'') =
     ([Synthesize [33529, 26524] (ascii ''zh-CN-XiaoxiaoNeural'') RATE (ascii ''/tmp/job/word_0_zh.mp3''),
       Print (Msg_retry 1 3 [33529, 26524]), Sleep 1,
       Synthesize [33529, 26524] (ascii ''zh-CN-XiaoxiaoNeural'') RATE (ascii ''/tmp/job/word_0_zh.mp3''),
       Print (Msg_retry 2 3 [33529, 26524]), Sleep 1,
       Synthesize [33529, 26524] (ascii ''zh-CN-XiaoxiaoNeural'') RATE (ascii ''/tmp/job/word_0_zh.mp3''),
       Print (Msg_warning [33529, 26524] (ascii ''no network'')),
       Run_tool (Anullsrc 100 (ascii ''/tmp/job/word_0_zh.mp3''))],
      Inl CalledProcessError)"
  by (simp add: text_to_speech_cases Let_def broken_fallback_world_def silent_world_def good_world_def)

section \<open>The claims about the audio pipeline\<close>

text \<open>
  C3, as the code has it. The synthesizer asks the backend at least once and at most
  three times, always for the same text, voice, rate and output file, and sleeps one
  second between two consecutive attempts. When all three attempts fail it prints
  the warning and runs the audio tool for a 100 ms silent clip at the output file;
  it returns \<open>False\<close> when that run succeeds and raises the tool's exception when it
  does not, and it raises in no other case. A job whose runs of the audio tool all
  succeed returns \<open>True\<close>, whatever the backend does.
\<close>

theorem text_to_speech_degrades:
  "(\<exists>k. 1 \<le> k \<and> k \<le> MAX_RETRIES \<and>
        backend_calls (fst (text_to_speech w text voice out)) =
          replicate k (Synthesize text voice RATE out))
   \<and> pacing (fst (text_to_speech w text voice out)) \<in>
        {[Synthesize text voice RATE out],
         [Synthesize text voice RATE out, Sleep 1, Synthesize text voice RATE out],
         [Synthesize text voice RATE out, Sleep 1, Synthesize text voice RATE out, Sleep 1,
          Synthesize text voice RATE out]}
   \<and> (backend w text voice out 0 = Some e0 \<and> backend w text voice out 1 = Some e1 \<and>
       backend w text voice out 2 = Some e2 \<longrightarrow>
         text_to_speech w text voice out =
           ([Synthesize text voice RATE out, Print (Msg_retry 1 3 text), Sleep 1,
             Synthesize text voice RATE out, Print (Msg_retry 2 3 text), Sleep 1,
             Synthesize text voice RATE out, Print (Msg_warning text e2),
             Run_tool (Anullsrc 100 out)],
            case run_tool w (Anullsrc 100 out) of None \<Rightarrow> Inr False | Some e \<Rightarrow> Inl e))
   \<and> (snd (text_to_speech w text voice out) = Inl e \<longrightarrow>
         backend w text voice out 0 \<noteq> None \<and> backend w text voice out 1 \<noteq> None \<and>
         backend w text voice out 2 \<noteq> None \<and> run_tool w (Anullsrc 100 out) = Some e)
   \<and> (parse_word_file (read_file w input_file) = Inr words \<and> words \<noteq> [] \<and>
       (\<forall>cmd. run_tool w cmd = None) \<longrightarrow>
         snd (convert_file_to_mp3 w input_file output_opt) = Inr True)"
proof -
  let ?s = "Synthesize text voice RATE out"
  have a: "\<exists>k. 1 \<le> k \<and> k \<le> MAX_RETRIES \<and>
        backend_calls (fst (text_to_speech w text voice out)) = replicate k ?s"
  proof (cases "backend w text voice out 0")
    case None
    then have "backend_calls (fst (text_to_speech w text voice out)) = replicate 1 ?s"
      by (simp add: text_to_speech_cases backend_calls_def Let_def)
    then show ?thesis unfolding MAX_RETRIES_def by (intro exI[of _ 1]) simp
  next
    case s0: (Some e0)
    show ?thesis
    proof (cases "backend w text voice out 1")
      case None
      then have "backend_calls (fst (text_to_speech w text voice out)) = replicate 2 ?s"
        using s0 by (simp add: text_to_speech_cases backend_calls_def numeral_2_eq_2 Let_def)
      then show ?thesis unfolding MAX_RETRIES_def by (intro exI[of _ 2]) simp
    next
      case s1: (Some e1)
      have "backend_calls (fst (text_to_speech w text voice out)) = replicate 3 ?s"
        using s0 s1
        by (cases "backend w text voice out 2")
           (simp_all add: text_to_speech_cases backend_calls_def numeral_3_eq_3 Let_def)
      then show ?thesis unfolding MAX_RETRIES_def by (intro exI[of _ 3]) simp
    qed
  qed
  have b: "pacing (fst (text_to_speech w text voice out)) \<in>
        {[?s], [?s, Sleep 1, ?s], [?s, Sleep 1, ?s, Sleep 1, ?s]}"
    by (simp add: text_to_speech_cases pacing_def Let_def split: option.splits)
  have c: "backend w text voice out 0 = Some e0 \<and> backend w text voice out 1 = Some e1 \<and>
       backend w text voice out 2 = Some e2 \<longrightarrow>
         text_to_speech w text voice out =
           ([?s, Print (Msg_retry 1 3 text), Sleep 1, ?s, Print (Msg_retry 2 3 text), Sleep 1,
             ?s, Print (Msg_warning text e2), Run_tool (Anullsrc 100 out)],
            case run_tool w (Anullsrc 100 out) of None \<Rightarrow> Inr False | Some e \<Rightarrow> Inl e)"
    by (simp add: text_to_speech_cases Let_def)
  have d: "snd (text_to_speech w text voice out) = Inl e \<longrightarrow>
         backend w text voice out 0 \<noteq> None \<and> backend w text voice out 1 \<noteq> None \<and>
         backend w text voice out 2 \<noteq> None \<and> run_tool w (Anullsrc 100 out) = Some e"
    by (auto simp: text_to_speech_cases Let_def split: option.splits)
  have e: "parse_word_file (read_file w input_file) = Inr words \<and> words \<noteq> [] \<and>
       (\<forall>cmd. run_tool w cmd = None) \<longrightarrow>
         snd (convert_file_to_mp3 w input_file output_opt) = Inr True"
    using convert_tool_ok[of w input_file words output_opt] by blast
  show ?thesis using a b c d e by blast
qed

theorem text_to_speech_degrades_witness:
  "backend silent_world [33529, 26524] (ascii ''zh-CN-XiaoxiaoNeural'') (ascii ''/tmp/job/word_0_zh.mp3'') 0
     = Some (ascii ''no network'')
   \<and> backend silent_world [33529, 26524] (ascii ''zh-CN-XiaoxiaoNeural'') (ascii ''/tmp/job/word_0_zh.mp3'') 1
     = Some (ascii ''no network'')
   \<and> backend silent_world [33529, 26524] (ascii ''zh-CN-XiaoxiaoNeural'') (ascii ''/tmp/job/word_0_zh.mp3'') 2
     = Some (ascii ''no network'')
   \<and> snd (text_to_speech silent_world [33529, 26524] (ascii ''zh-CN-XiaoxiaoNeural'')
            (ascii ''/tmp/job/word_0_zh.mp3'')) = Inr False
   \<and> parse_word_file (read_file silent_world (ascii ''words.txt'')) = Inr example_words
   \<and> example_words \<noteq> [] \<and> (\<forall>cmd. run_tool silent_world cmd = None)
   \<and> snd (convert_file_to_mp3 silent_world (ascii ''words.txt'') None) = Inr True"
proof -
  have h1: "\<And>k. backend silent_world [33529, 26524] (ascii ''zh-CN-XiaoxiaoNeural'')
              (ascii ''/tmp/job/word_0_zh.mp3'') k = Some (ascii ''no network'')"
    by (simp add: silent_world_def)
  have h2: "parse_word_file (read_file silent_world (ascii ''words.txt'')) = Inr example_words"
    using example_parse by (simp add: silent_world_def good_world_def)
  have h3: "example_words \<noteq> []" by (simp add: example_words_def)
  have h4: "\<forall>cmd. run_tool silent_world cmd = None" by (simp add: silent_world_def good_world_def)
  show ?thesis
    using text_to_speech_degrades[of silent_world "[33529, 26524]" "ascii ''zh-CN-XiaoxiaoNeural''"
       "ascii ''/tmp/job/word_0_zh.mp3''" "ascii ''no network''" "ascii ''no network''"
       "ascii ''no network''" CalledProcessError "ascii ''words.txt''" example_words None]
      h1 h2 h3 h4
    by simp
qed

theorem text_to_speech_raises_counterexample:
  "snd (text_to_speech broken_fallback_world [33529, 26524] (ascii ''zh-CN-XiaoxiaoNeural'')
          (ascii ''/tmp/job/word_0_zh.mp3'')) = Inl CalledProcessError
   \<and> parse_word_file (read_file broken_fallback_world (ascii ''words.txt'')) = Inr example_words
   \<and> snd (convert_file_to_mp3 broken_fallback_world (ascii ''words.txt'') None)
       = Inl CalledProcessError"
proof -
  have p: "parse_word_file (read_file broken_fallback_world (ascii ''words.txt'')) = Inr example_words"
    using example_parse by (simp add: broken_fallback_world_def silent_world_def good_world_def)
  have j: "snd (convert_file_to_mp3 broken_fallback_world (ascii ''words.txt'') None)
       = Inl CalledProcessError"
    unfolding convert_file_to_mp3_def Let_def p
    by (simp add: example_words_def snd_bind_io generate_silence_def process_entry_def snd_gather2
        text_to_speech_cases broken_fallback_world_def silent_world_def good_world_def
        PAUSE_BETWEEN_WORDS_def PAUSE_BETWEEN_LANGUAGES_def enumerate_eq_zip upt_rec Let_def)
  show ?thesis using broken_fallback_tts p j by simp
qed

lemma parse_lines_Nil_iff:
  "parse_lines lines [] = [] \<longleftrightarrow> (\<forall>raw\<in>set lines. blank_line raw \<or> comment_line raw)"
  by (simp only: parse_lines_spec spec_parse_Nil_iff)

text \<open>
  C4, as the code has it. The parser has no empty-input error: on a readable file
  it always returns a sequence, and the sequence is empty exactly when every line is
  blank or a comment. The conversion job then prints its two header lines and the
  message that the file holds no valid word and returns \<open>False\<close>; it raises
  nothing and runs neither the voice backend nor the audio tool.
\<close>

theorem empty_input_returns_false:
  "(\<exists>words. parse_word_file (Some lines) = Inr words)
   \<and> (parse_word_file (Some lines) = Inr [] \<longleftrightarrow>
        (\<forall>raw\<in>set lines. blank_line raw \<or> comment_line raw))
   \<and> (read_file w input_file = Some lines \<and> (\<forall>raw\<in>set lines. blank_line raw \<or> comment_line raw)
        \<longrightarrow> convert_file_to_mp3 w input_file output_opt =
              ([Print (Msg_processing input_file),
                Print (Msg_output (output_name input_file output_opt)),
                Print Msg_no_words], Inr False))"
proof -
  have a: "\<exists>words. parse_word_file (Some lines) = Inr words"
    by (simp add: parse_word_file_def)
  have b: "parse_word_file (Some lines) = Inr [] \<longleftrightarrow>
        (\<forall>raw\<in>set lines. blank_line raw \<or> comment_line raw)"
    by (simp add: parse_word_file_def parse_lines_Nil_iff)
  have c: "read_file w input_file = Some lines \<and> (\<forall>raw\<in>set lines. blank_line raw \<or> comment_line raw)
        \<longrightarrow> convert_file_to_mp3 w input_file output_opt =
              ([Print (Msg_processing input_file),
                Print (Msg_output (output_name input_file output_opt)),
                Print Msg_no_words], Inr False)"
    using convert_empty[of w input_file lines output_opt] parse_lines_Nil_iff[of lines] by blast
  show ?thesis using a b c by blast
qed

theorem empty_input_returns_false_witness:
  "read_file good_world (ascii ''empty.txt'') = Some [ascii ''# nothing'', [10]]
   \<and> list_all (\<lambda>raw. blank_line raw \<or> comment_line raw) [ascii ''# nothing'', [10]]
   \<and> parse_word_file (Some [ascii ''# nothing'', [10]]) = Inr []
   \<and> convert_file_to_mp3 good_world (ascii ''empty.txt'') None =
        ([Print (Msg_processing (ascii ''empty.txt'')),
          Print (Msg_output (output_name (ascii ''empty.txt'') None)),
          Print Msg_no_words], Inr False)"
proof -
  have h1: "read_file good_world (ascii ''empty.txt'') = Some [ascii ''# nothing'', [10]]"
    by (simp add: good_world_def ascii_def)
  have h2: "\<forall>raw\<in>set [ascii ''# nothing'', [10]]. blank_line raw \<or> comment_line raw"
    by (simp add: blank_line_def comment_line_def startswith_hash_def strip_def isspace_def ascii_def)
  show ?thesis
    using empty_input_returns_false[of "[ascii ''# nothing'', [10]]" good_world
        "ascii ''empty.txt''" None] h1 h2
    by (simp add: list_all_iff)
qed

theorem empty_input_no_error_counterexample:
  "parse_word_file (read_file good_world (ascii ''empty.txt'')) = Inr []
   \<and> convert_file_to_mp3 good_world (ascii ''empty.txt'') None =
        ([Print (Msg_processing (ascii ''empty.txt'')), Print (Msg_output (ascii ''empty.mp3'')),
          Print Msg_no_words], Inr False)"
proof -
  have "parse_word_file (read_file good_world (ascii ''empty.txt'')) = Inr []"
    by (simp add: good_world_def parse_word_file_def parse_line_def strip_def isspace_def
        startswith_hash_def ascii_def)
  then show ?thesis using empty_example by simp
qed

text \<open>
  C6. In directory mode the driver runs the conversion job of each file found, in
  order, each followed by an empty line: when no job raises, the log of the run is
  the concatenation of the logs of the jobs and the run ends normally. A file
  without entries makes its job return \<open>False\<close> without raising, and the driver
  goes on with the files after it.
\<close>

theorem directory_continues_after_empty_file:
  "(glob_txt w directory = files \<and> files \<noteq> [] \<longrightarrow>
      process_directory w directory =
        (Print (Msg_found_txt (length files)) # fst (process_files w files),
         snd (process_files w files)))
   \<and> ((\<forall>f\<in>set files. \<exists>b. snd (convert_file_to_mp3 w f None) = Inr b) \<longrightarrow>
        process_files w files =
          (concat (map (\<lambda>f. fst (convert_file_to_mp3 w f None) @ [Print Msg_blank]) files), Inr ()))
   \<and> (read_file w txt_file = Some lines \<and> (\<forall>raw\<in>set lines. blank_line raw \<or> comment_line raw) \<longrightarrow>
        snd (convert_file_to_mp3 w txt_file None) = Inr False \<and>
        process_files w (txt_file # rest) =
          ([Print (Msg_processing txt_file), Print (Msg_output (output_name txt_file None)),
            Print Msg_no_words, Print Msg_blank] @ fst (process_files w rest),
           snd (process_files w rest)))"
proof -
  have a: "glob_txt w directory = files \<and> files \<noteq> [] \<longrightarrow>
      process_directory w directory =
        (Print (Msg_found_txt (length files)) # fst (process_files w files),
         snd (process_files w files))"
    by (auto simp: process_directory_def Let_def)
  have b: "(\<forall>f\<in>set files. \<exists>b. snd (convert_file_to_mp3 w f None) = Inr b) \<longrightarrow>
        process_files w files =
          (concat (map (\<lambda>f. fst (convert_file_to_mp3 w f None) @ [Print Msg_blank]) files), Inr ())"
    using process_files_all_ok[of files w] by blast
  have c: "read_file w txt_file = Some lines \<and> (\<forall>raw\<in>set lines. blank_line raw \<or> comment_line raw) \<longrightarrow>
        snd (convert_file_to_mp3 w txt_file None) = Inr False \<and>
        process_files w (txt_file # rest) =
          ([Print (Msg_processing txt_file), Print (Msg_output (output_name txt_file None)),
            Print Msg_no_words, Print Msg_blank] @ fst (process_files w rest),
           snd (process_files w rest))"
  proof
    assume h: "read_file w txt_file = Some lines \<and> (\<forall>raw\<in>set lines. blank_line raw \<or> comment_line raw)"
    then have e: "convert_file_to_mp3 w txt_file None =
              ([Print (Msg_processing txt_file), Print (Msg_output (output_name txt_file None)),
                Print Msg_no_words], Inr False)"
      using convert_empty[of w txt_file lines None] parse_lines_Nil_iff[of lines] by blast
    then have s: "snd (convert_file_to_mp3 w txt_file None) = Inr False" by simp
    from process_files_Cons_ok[OF s, of rest] e s
    show "snd (convert_file_to_mp3 w txt_file None) = Inr False \<and>
        process_files w (txt_file # rest) =
          ([Print (Msg_processing txt_file), Print (Msg_output (output_name txt_file None)),
            Print Msg_no_words, Print Msg_blank] @ fst (process_files w rest),
           snd (process_files w rest))" by simp
  qed
  show ?thesis using a b c by blast
qed

lemma convert_reaches_merge:
  assumes "parse_word_file (read_file w input_file) = Inr words"
      and "words \<noteq> []"
      and tools: "\<And>ms out. run_tool w (Anullsrc ms out) = None"
  shows "handed (fst (convert_file_to_mp3 w input_file output_opt)) =
           [map file_line (job_fragments w input_file words)]
     \<and> snd (convert_file_to_mp3 w input_file output_opt) =
         (case run_tool w (Concat (path_join (mkdtemp w input_file) (ascii ''filelist.txt''))
                             (output_name input_file output_opt)) of
            None \<Rightarrow> Inr True
          | Some e \<Rightarrow> Inl e)"
proof -
  let ?td = "mkdtemp w input_file"
  let ?sf = "path_join ?td (ascii ''silence.mp3'')"
  let ?ssf = "path_join ?td (ascii ''short_silence.mp3'')"
  have pw: "snd (process_words w ?td ?sf ?ssf (length words) (enumerate 0 words) []) =
          Inr ([] @ spec_fragments ?td ?sf ?ssf (enumerate 0 words))"
    by (rule process_words_tool_ok) (simp_all add: tools)
  show ?thesis using assms(1,2) tools pw
    by (simp add: convert_file_to_mp3_def Let_def fst_bind_io snd_bind_io generate_silence_def
        merge_audio_files_def job_fragments_def output_name_def file_line_def
        split: option.splits)
qed

lemma convert_first_silence_fails:
  assumes "parse_word_file (read_file w input_file) = Inr words"
      and "words \<noteq> []"
      and "run_tool w (Anullsrc PAUSE_BETWEEN_WORDS
             (path_join (mkdtemp w input_file) (ascii ''silence.mp3''))) = Some e"
  shows "convert_file_to_mp3 w input_file output_opt =
     ([Print (Msg_processing input_file), Print (Msg_output (output_name input_file output_opt)),
       Print (Msg_found (length words)),
       Run_tool (Anullsrc PAUSE_BETWEEN_WORDS (path_join (mkdtemp w input_file) (ascii ''silence.mp3'')))],
      Inl e)"
  using assms
  by (simp add: convert_file_to_mp3_def Let_def generate_silence_def output_name_def)

text \<open>
  C8. A run of the audio tool that fails is not recovered. \<open>generate_silence\<close> and
  \<open>merge_audio_files\<close> raise the tool's exception. A job on a readable file raises
  exactly when one of the runs of the tool in its log failed: a failure of the first
  silence clip ends the job before any word is synthesized, and a failure of the
  concatenation ends it after the fragment sequence was handed over. The exception
  of a job ends the directory run: the files after it are not processed. In
  contrast, when all runs of the tool succeed the job returns \<open>True\<close> whatever the
  voice backend does.
\<close>

theorem tool_failure_terminates_job:
  "(run_tool w (Anullsrc ms out) = Some e \<longrightarrow>
      generate_silence w out ms = ([Run_tool (Anullsrc ms out)], Inl e))
   \<and> (run_tool w (Concat (path_join temp_dir (ascii ''filelist.txt'')) out) = Some e \<longrightarrow>
        snd (merge_audio_files w audio_files out temp_dir) = Inl e)
   \<and> (parse_word_file (read_file w input_file) = Inr words \<longrightarrow>
        (isl (snd (convert_file_to_mp3 w input_file output_opt)) \<longleftrightarrow>
         tool_failed w (fst (convert_file_to_mp3 w input_file output_opt))))
   \<and> (parse_word_file (read_file w input_file) = Inr words \<and> words \<noteq> [] \<and>
       run_tool w (Anullsrc PAUSE_BETWEEN_WORDS
         (path_join (mkdtemp w input_file) (ascii ''silence.mp3''))) = Some e \<longrightarrow>
        convert_file_to_mp3 w input_file output_opt =
          ([Print (Msg_processing input_file), Print (Msg_output (output_name input_file output_opt)),
            Print (Msg_found (length words)),
            Run_tool (Anullsrc PAUSE_BETWEEN_WORDS
              (path_join (mkdtemp w input_file) (ascii ''silence.mp3'')))],
           Inl e))
   \<and> (parse_word_file (read_file w input_file) = Inr words \<and> words \<noteq> [] \<and>
       (\<forall>ms out. run_tool w (Anullsrc ms out) = None) \<and>
       run_tool w (Concat (path_join (mkdtemp w input_file) (ascii ''filelist.txt''))
                     (output_name input_file output_opt)) = Some e \<longrightarrow>
        snd (convert_file_to_mp3 w input_file output_opt) = Inl e)
   \<and> (snd (convert_file_to_mp3 w txt_file None) = Inl e \<longrightarrow>
        process_files w (txt_file # rest) = (fst (convert_file_to_mp3 w txt_file None), Inl e))
   \<and> (parse_word_file (read_file w input_file) = Inr words \<and> words \<noteq> [] \<and>
       (\<forall>cmd. run_tool w cmd = None) \<longrightarrow>
        snd (convert_file_to_mp3 w input_file output_opt) = Inr True)"
proof -
  have a: "run_tool w (Anullsrc ms out) = Some e \<longrightarrow>
      generate_silence w out ms = ([Run_tool (Anullsrc ms out)], Inl e)"
    by (simp add: generate_silence_def)
  have b: "run_tool w (Concat (path_join temp_dir (ascii ''filelist.txt'')) out) = Some e \<longrightarrow>
        snd (merge_audio_files w audio_files out temp_dir) = Inl e"
    by (simp add: merge_audio_files_def Let_def)
  have c: "parse_word_file (read_file w input_file) = Inr words \<longrightarrow>
        (isl (snd (convert_file_to_mp3 w input_file output_opt)) \<longleftrightarrow>
         tool_failed w (fst (convert_file_to_mp3 w input_file output_opt)))"
    using rift_convert[of w input_file words output_opt]
    by (simp add: raises_iff_tool_failed_def)
  have d: "parse_word_file (read_file w input_file) = Inr words \<and> words \<noteq> [] \<and>
       run_tool w (Anullsrc PAUSE_BETWEEN_WORDS
         (path_join (mkdtemp w input_file) (ascii ''silence.mp3''))) = Some e \<longrightarrow>
        convert_file_to_mp3 w input_file output_opt =
          ([Print (Msg_processing input_file), Print (Msg_output (output_name input_file output_opt)),
            Print (Msg_found (length words)),
            Run_tool (Anullsrc PAUSE_BETWEEN_WORDS
              (path_join (mkdtemp w input_file) (ascii ''silence.mp3'')))],
           Inl e)"
    using convert_first_silence_fails[of w input_file words e output_opt] by blast
  have f: "parse_word_file (read_file w input_file) = Inr words \<and> words \<noteq> [] \<and>
       (\<forall>ms out. run_tool w (Anullsrc ms out) = None) \<and>
       run_tool w (Concat (path_join (mkdtemp w input_file) (ascii ''filelist.txt''))
                     (output_name input_file output_opt)) = Some e \<longrightarrow>
        snd (convert_file_to_mp3 w input_file output_opt) = Inl e"
    using convert_reaches_merge[of w input_file words output_opt] by auto
  have g: "snd (convert_file_to_mp3 w txt_file None) = Inl e \<longrightarrow>
        process_files w (txt_file # rest) = (fst (convert_file_to_mp3 w txt_file None), Inl e)"
    using process_files_Cons_raise[of w txt_file e rest] by blast
  have h: "parse_word_file (read_file w input_file) = Inr words \<and> words \<noteq> [] \<and>
       (\<forall>cmd. run_tool w cmd = None) \<longrightarrow>
        snd (convert_file_to_mp3 w input_file output_opt) = Inr True"
    using convert_tool_ok[of w input_file words output_opt] by blast
  show ?thesis using a b c d f g h by blast
qed

theorem tool_failure_terminates_job_witness:
  "parse_word_file (read_file no_concat_world (ascii ''words.txt'')) = Inr example_words
   \<and> example_words \<noteq> []
   \<and> (\<forall>ms out. run_tool no_concat_world (Anullsrc ms out) = None)
   \<and> run_tool no_concat_world
        (Concat (path_join (mkdtemp no_concat_world (ascii ''words.txt'')) (ascii ''filelist.txt''))
           (output_name (ascii ''words.txt'') None)) = Some CalledProcessError
   \<and> snd (convert_file_to_mp3 no_concat_world (ascii ''words.txt'') None) = Inl CalledProcessError
   \<and> tool_failed no_concat_world (fst (convert_file_to_mp3 no_concat_world (ascii ''words.txt'') None))
   \<and> process_files no_concat_world [ascii ''words.txt'', ascii ''empty.txt''] =
        (fst (convert_file_to_mp3 no_concat_world (ascii ''words.txt'') None), Inl CalledProcessError)
   \<and> parse_word_file (read_file no_ffmpeg_world (ascii ''words.txt'')) = Inr example_words
   \<and> run_tool no_ffmpeg_world (Anullsrc PAUSE_BETWEEN_WORDS
         (path_join (mkdtemp no_ffmpeg_world (ascii ''words.txt'')) (ascii ''silence.mp3'')))
        = Some CalledProcessError
   \<and> convert_file_to_mp3 no_ffmpeg_world (ascii ''words.txt'') None =
        ([Print (Msg_processing (ascii ''words.txt'')),
          Print (Msg_output (output_name (ascii ''words.txt'') None)),
          Print (Msg_found (length example_words)),
          Run_tool (Anullsrc PAUSE_BETWEEN_WORDS
            (path_join (mkdtemp no_ffmpeg_world (ascii ''words.txt'')) (ascii ''silence.mp3'')))],
         Inl CalledProcessError)"
proof -
  have p1: "parse_word_file (read_file no_concat_world (ascii ''words.txt'')) = Inr example_words"
    using example_parse by (simp add: no_concat_world_def good_world_def)
  have p2: "parse_word_file (read_file no_ffmpeg_world (ascii ''words.txt'')) = Inr example_words"
    using example_parse by (simp add: no_ffmpeg_world_def good_world_def)
  have ne: "example_words \<noteq> []" by (simp add: example_words_def)
  have t1: "\<forall>ms out. run_tool no_concat_world (Anullsrc ms out) = None"
    by (simp add: no_concat_world_def)
  have t2: "\<And>l out. run_tool no_concat_world (Concat l out) = Some CalledProcessError"
    by (simp add: no_concat_world_def)
  have t3: "\<And>cmd. run_tool no_ffmpeg_world cmd = Some CalledProcessError"
    by (simp add: no_ffmpeg_world_def)
  have j1: "snd (convert_file_to_mp3 no_concat_world (ascii ''words.txt'') None) = Inl CalledProcessError"
    using tool_failure_terminates_job[where w=no_concat_world and e=CalledProcessError
        and input_file="ascii ''words.txt''" and words=example_words and output_opt=None]
      p1 ne t1 t2
    by simp
  show ?thesis
    using tool_failure_terminates_job[where w=no_concat_world and e=CalledProcessError
        and input_file="ascii ''words.txt''" and words=example_words and output_opt=None
        and txt_file="ascii ''words.txt''" and rest="[ascii ''empty.txt'']"]
      tool_failure_terminates_job[where w=no_ffmpeg_world and e=CalledProcessError
        and input_file="ascii ''words.txt''" and words=example_words and output_opt=None]
      p1 p2 ne t1 t2 t3 j1
    by simp
qed

theorem directory_continues_after_empty_file_witness:
  "glob_txt good_world (ascii ''lists'') = [ascii ''empty.txt'', ascii ''words.txt'']
   \<and> read_file good_world (ascii ''empty.txt'') = Some [ascii ''# nothing'', [10]]
   \<and> list_all (\<lambda>raw. blank_line raw \<or> comment_line raw) [ascii ''# nothing'', [10]]
   \<and> snd (convert_file_to_mp3 good_world (ascii ''empty.txt'') None) = Inr False
   \<and> snd (convert_file_to_mp3 good_world (ascii ''words.txt'') None) = Inr True
   \<and> process_directory good_world (ascii ''lists'') =
        ([Print (Msg_found_txt 2),
          Print (Msg_processing (ascii ''empty.txt'')),
          Print (Msg_output (output_name (ascii ''empty.txt'') None)),
          Print Msg_no_words, Print Msg_blank] @
         fst (convert_file_to_mp3 good_world (ascii ''words.txt'') None) @ [Print Msg_blank],
         Inr ())"
proof -
  have g: "glob_txt good_world (ascii ''lists'') = [ascii ''empty.txt'', ascii ''words.txt'']"
    by (simp add: good_world_def)
  have h1: "read_file good_world (ascii ''empty.txt'') = Some [ascii ''# nothing'', [10]]"
    by (simp add: good_world_def ascii_def)
  have h2: "\<forall>raw\<in>set [ascii ''# nothing'', [10]]. blank_line raw \<or> comment_line raw"
    by (simp add: blank_line_def comment_line_def startswith_hash_def strip_def isspace_def ascii_def)
  have t: "snd (convert_file_to_mp3 good_world (ascii ''words.txt'') None) = Inr True"
    by (rule convert_tool_ok[OF example_parse]) (simp_all add: example_words_def good_world_def)
  have r: "process_files good_world [ascii ''words.txt''] =
     (fst (convert_file_to_mp3 good_world (ascii ''words.txt'') None) @ [Print Msg_blank], Inr ())"
    using process_files_Cons_ok[OF t, of "[]"] by simp
  show ?thesis
    using directory_continues_after_empty_file[where w=good_world and directory="ascii ''lists''"
        and files="[ascii ''empty.txt'', ascii ''words.txt'']" and txt_file="ascii ''empty.txt''"
        and lines="[ascii ''# nothing'', [10]]" and rest="[ascii ''words.txt'']"] g h1 h2 t r
    by (simp add: list_all_iff)
qed

section \<open>The claims about the categorizer\<close>

lemma py_replace_underscore: "py_replace [95] [] s = remove_underscores s"
  by (induction s) (simp_all add: remove_underscores_def)

lemma category_file_eq:
  "category_file translations cat_name words =
     (remove_underscores cat_name @ [10]) # map (spec_line translations) (sort words)"
  by (simp add: category_file_def py_replace_underscore spec_line_def Let_def)

text \<open>
  C9. The file of a category is the title line, which is the category name without
  any underscore, followed by one line for each word of the category, the words in
  ascending lexicographic order whatever their order in the category.
\<close>

theorem category_file_sorted:
  "length (save_categories categories output_dir translations) = length categories
   \<and> (\<forall>i<length categories.
        fst (save_categories categories output_dir translations ! i) =
          path_join output_dir (fst (categories ! i) @ ascii ''.txt'')
        \<and> snd (save_categories categories output_dir translations ! i) =
          category_file translations (fst (categories ! i)) (snd (categories ! i)))
   \<and> hd (category_file translations cat_name words) = remove_underscores cat_name @ [10]
   \<and> 95 \<notin> set (remove_underscores cat_name)
   \<and> (95 \<notin> set cat_name \<longrightarrow> remove_underscores cat_name = cat_name)
   \<and> remove_underscores (a @ [95] @ b) = remove_underscores a @ remove_underscores b
   \<and> tl (category_file translations cat_name words) = map (spec_line translations) (sort words)
   \<and> sorted (sort words) \<and> mset (sort words) = mset words
   \<and> (mset words = mset reordered \<longrightarrow>
        category_file translations cat_name words = category_file translations cat_name reordered)"
proof -
  have a: "length (save_categories categories output_dir translations) = length categories"
    by (simp add: save_categories_def)
  have b: "\<forall>i<length categories.
        fst (save_categories categories output_dir translations ! i) =
          path_join output_dir (fst (categories ! i) @ ascii ''.txt'')
        \<and> snd (save_categories categories output_dir translations ! i) =
          category_file translations (fst (categories ! i)) (snd (categories ! i))"
    by (simp add: save_categories_def split: prod.splits)
  have c: "hd (category_file translations cat_name words) = remove_underscores cat_name @ [10]"
    by (simp add: category_file_eq)
  have d: "95 \<notin> set (remove_underscores cat_name)"
    by (simp add: remove_underscores_def)
  have e: "95 \<notin> set cat_name \<longrightarrow> remove_underscores cat_name = cat_name"
    by (auto simp: remove_underscores_def filter_id_conv)
  have f: "remove_underscores (a @ [95] @ b) = remove_underscores a @ remove_underscores b"
    by (simp add: remove_underscores_def)
  have g: "tl (category_file translations cat_name words) = map (spec_line translations) (sort words)"
    by (simp add: category_file_eq)
  have h: "sorted (sort words) \<and> mset (sort words) = mset words" by simp
  have i: "mset words = mset reordered \<longrightarrow>
        category_file translations cat_name words = category_file translations cat_name reordered"
  proof
    assume "mset words = mset reordered"
    then have "sort words = sort reordered"
      by (metis properties_for_sort sorted_sort mset_sort)
    then show "category_file translations cat_name words = category_file translations cat_name reordered"
      by (simp add: category_file_eq)
  qed
  show ?thesis using a b c d e f g h i by blast
qed

theorem category_file_sorted_witness:
  "category_file [(ascii ''pear'', [26792])] (ascii ''food_2'') [ascii ''pear'', ascii ''apple'', ascii ''fig''] =
     [ascii ''food2'' @ [10],
      ascii ''apple apple'' @ [10], ascii ''fig fig'' @ [10], [26792, 32] @ ascii ''pear'' @ [10]]
   \<and> mset [ascii ''pear'', ascii ''apple'', ascii ''fig''] = mset [ascii ''fig'', ascii ''pear'', ascii ''apple'']
   \<and> category_file [(ascii ''pear'', [26792])] (ascii ''food_2'') [ascii ''pear'', ascii ''apple'', ascii ''fig'']
       = category_file [(ascii ''pear'', [26792])] (ascii ''food_2'') [ascii ''fig'', ascii ''pear'', ascii ''apple'']
   \<and> snd (save_categories [(ascii ''food_2'', [ascii ''pear'', ascii ''apple'', ascii ''fig''])]
             (ascii ''categories'') [(ascii ''pear'', [26792])] ! 0) =
       category_file [(ascii ''pear'', [26792])] (ascii ''food_2'') [ascii ''pear'', ascii ''apple'', ascii ''fig'']"
proof -
  have m: "mset [ascii ''pear'', ascii ''apple'', ascii ''fig''] = mset [ascii ''fig'', ascii ''pear'', ascii ''apple'']"
    by (simp add: ascii_def)
  have s: "sort [ascii ''pear'', ascii ''apple'', ascii ''fig''] = [ascii ''apple'', ascii ''fig'', ascii ''pear'']"
    by (simp add: ascii_def)
  have e: "category_file [(ascii ''pear'', [26792])] (ascii ''food_2'') [ascii ''pear'', ascii ''apple'', ascii ''fig''] =
     [ascii ''food2'' @ [10],
      ascii ''apple apple'' @ [10], ascii ''fig fig'' @ [10], [26792, 32] @ ascii ''pear'' @ [10]]"
    unfolding category_file_eq s by (simp add: remove_underscores_def spec_line_def dict_get_def ascii_def)
  have eq: "category_file [(ascii ''pear'', [26792])] (ascii ''food_2'') [ascii ''pear'', ascii ''apple'', ascii ''fig'']
       = category_file [(ascii ''pear'', [26792])] (ascii ''food_2'') [ascii ''fig'', ascii ''pear'', ascii ''apple'']"
    using category_file_sorted[of "[]" "[]" "[(ascii ''pear'', [26792])]" "ascii ''food_2''"
        "[ascii ''pear'', ascii ''apple'', ascii ''fig'']" "[]" "[]" "[ascii ''fig'', ascii ''pear'', ascii ''apple'']"] m
    by blast
  have sv: "snd (save_categories [(ascii ''food_2'', [ascii ''pear'', ascii ''apple'', ascii ''fig''])]
             (ascii ''categories'') [(ascii ''pear'', [26792])] ! 0) =
       category_file [(ascii ''pear'', [26792])] (ascii ''food_2'') [ascii ''pear'', ascii ''apple'', ascii ''fig'']"
    by (simp add: save_categories_def)
  show ?thesis using m e eq sv by blast
qed

section \<open>Properties of dictionaries and of the category split\<close>

lemma dict_set_new: "k \<notin> fst ` set d \<Longrightarrow> dict_set d k v = d @ [(k, v)]"
  by (simp add: dict_set_def)

lemma dict_get_dict_set_same: "dict_get (dict_set d k v) k = Some v"
proof (cases "k \<in> fst ` set d")
  case False
  then have "map_of d k = None" by (simp add: map_of_eq_None_iff)
  then show ?thesis using False by (simp add: dict_set_def dict_get_def map_add_def)
next
  case True
  have "k \<in> fst ` set d \<Longrightarrow>
     map_of (map (\<lambda>(k', v'). if k' = k then (k', v) else (k', v')) d) k = Some v"
    by (induction d) auto
  then show ?thesis using True by (simp add: dict_set_def dict_get_def)
qed

lemma dict_get_dict_set_other: "k' \<noteq> k \<Longrightarrow> dict_get (dict_set d k v) k' = dict_get d k'"
proof -
  assume ne: "k' \<noteq> k"
  have "map_of (map (\<lambda>(a, b). if a = k then (a, v) else (a, b)) d) k' = map_of d k'"
    using ne by (induction d) auto
  then show ?thesis using ne
    by (auto simp: dict_set_def dict_get_def map_add_def split: option.splits)
qed

lemma set_dict_set: "set (dict_set d k v) \<subseteq> insert (k, v) (set d)"
  by (auto simp: dict_set_def split: if_splits)

lemma keys_dict_set: "fst ` set (dict_set d k v) = insert k (fst ` set d)"
  by (force simp: dict_set_def split: if_splits)

lemma py_slice_nat:
  "py_slice xs (int a) (int b) =
     take (min b (length xs) - min a (length xs)) (drop (min a (length xs)) xs)"
proof -
  have s: "min (int a) (int (length xs)) = int (min a (length xs))" by simp
  have e: "min (int b) (int (length xs)) = int (min b (length xs))" by simp
  have d: "nat (int (min b (length xs)) - int (min a (length xs))) =
           min b (length xs) - min a (length xs)" by linarith
  show ?thesis unfolding py_slice_def Let_def
    by (simp only: s e d nat_int of_nat_0_le_iff of_nat_less_0_iff if_False)
qed

lemma py_slice_chunk:
  "py_slice xs (int i * int m) (min ((int i + 1) * int m) (int (length xs))) =
     take m (drop (i * m) xs)"
proof -
  have a: "int i * int m = int (i * m)" by simp
  have b1: "(int i + 1) * int m = int (i * m + m)" by (simp add: algebra_simps)
  have b: "min ((int i + 1) * int m) (int (length xs)) = int (min (i * m + m) (length xs))"
    unfolding b1 by (rule of_nat_min[symmetric])
  have "take (min (min (i * m + m) (length xs)) (length xs) - min (i * m) (length xs))
          (drop (min (i * m) (length xs)) xs) = take m (drop (i * m) xs)"
  proof (cases "i * m \<le> length xs")
    case True
    then show ?thesis by (simp add: min_def)
  next
    case False
    then show ?thesis by (simp add: min_def)
  qed
  then show ?thesis unfolding a b py_slice_nat .
qed

lemma concat_chunks: "concat (map (\<lambda>i. take k (drop (i * k) xs)) [0..<m]) = take (m * k) xs"
proof (induction m)
  case 0
  show ?case by simp
next
  case (Suc m)
  have "take (m * k) xs @ take k (drop (m * k) xs) = take (m * k + k) xs"
    by (simp add: take_add)
  then show ?case using Suc by (simp add: add.commute)
qed

lemma split_parts_append:
  "1 < np \<Longrightarrow> distinct (map fst result @ map (\<lambda>i. c @ [95] @ str_nat (i + 1)) idxs) \<Longrightarrow>
     split_parts c ws 60 np idxs result =
       result @ map (\<lambda>i. (c @ [95] @ str_nat (i + 1), take 60 (drop (i * 60) ws))) idxs"
proof (induction idxs arbitrary: result)
  case Nil
  show ?case by simp
next
  case (Cons i idxs)
  let ?name = "c @ [95] @ str_nat (i + 1)"
  have sl: "py_slice ws (int i * 60) (min (int i * 60 + 60) (int (length ws))) =
            take 60 (drop (i * 60) ws)"
    using py_slice_chunk[of ws i 60] by (simp add: algebra_simps)
  have new: "?name \<notin> fst ` set result" using Cons.prems(2) by auto
  have step: "dict_set result ?name (take 60 (drop (i * 60) ws)) =
              result @ [(?name, take 60 (drop (i * 60) ws))]"
    using new by (rule dict_set_new)
  have d: "distinct (map fst (result @ [(?name, take 60 (drop (i * 60) ws))]) @
                     map (\<lambda>i. c @ [95] @ str_nat (i + 1)) idxs)"
    using Cons.prems(2) by auto
  show ?case
    using Cons.IH[OF Cons.prems(1) d] Cons.prems(1) step
    by (simp add: Let_def sl)
qed

lemma split_parts_small:
  "\<forall>p\<in>set result. length (snd p) \<le> 60 \<Longrightarrow>
     \<forall>p\<in>set (split_parts c ws 60 np idxs result). length (snd p) \<le> 60"
proof (induction idxs arbitrary: result)
  case Nil
  then show ?case by simp
next
  case (Cons i idxs)
  let ?name = "(if 1 < np then c @ [95] @ str_nat (i + 1) else c)"
  have sl: "py_slice ws (int i * 60) (min (int i * 60 + 60) (int (length ws))) =
            take 60 (drop (i * 60) ws)"
    using py_slice_chunk[of ws i 60] by (simp add: algebra_simps)
  have "\<forall>p\<in>set (dict_set result ?name (take 60 (drop (i * 60) ws))). length (snd p) \<le> 60"
    using Cons.prems set_dict_set[of result ?name "take 60 (drop (i * 60) ws)"] by auto
  from Cons.IH[OF this] show ?case by (simp add: Let_def sl)
qed

lemma split_loop_small:
  "\<forall>p\<in>set result. length (snd p) \<le> 60 \<Longrightarrow>
     \<exists>res. split_loop categories 60 result = Inr res \<and> (\<forall>p\<in>set res. length (snd p) \<le> 60)"
proof (induction categories arbitrary: result)
  case Nil
  then show ?case by simp
next
  case (Cons cw categories)
  obtain c ws where cw: "cw = (c, ws)" by (cases cw)
  show ?case
  proof (cases "int (length ws) \<le> 60")
    case True
    have "\<forall>p\<in>set (dict_set result c ws). length (snd p) \<le> 60"
      using Cons.prems True set_dict_set[of result c ws] by auto
    from Cons.IH[OF this] show ?thesis using True by (simp add: cw)
  next
    case False
    let ?np = "(int (length ws) + 60 - 1) div 60"
    have "\<forall>p\<in>set (split_parts c ws 60 ?np [0..<nat ?np] result). length (snd p) \<le> 60"
      using Cons.prems by (rule split_parts_small)
    from Cons.IH[OF this] show ?thesis using False by (simp add: cw Let_def)
  qed
qed

lemma spec_split_Cons: "spec_split ((c, ws) # rest) = spec_parts c ws @ spec_split rest"
  by (simp add: spec_split_def)

lemma split_loop_spec:
  "distinct (map fst (result @ spec_split categories)) \<Longrightarrow>
     split_loop categories 60 result = Inr (result @ spec_split categories)"
proof (induction categories arbitrary: result)
  case Nil
  show ?case by (simp add: spec_split_def)
next
  case (Cons cw categories)
  obtain c ws where cw: "cw = (c, ws)" by (cases cw)
  have d: "distinct (map fst (result @ spec_parts c ws @ spec_split categories))"
    using Cons.prems by (simp add: cw spec_split_Cons)
  show ?case
  proof (cases "length ws \<le> 60")
    case True
    then have sp: "spec_parts c ws = [(c, ws)]" by (simp add: spec_parts_def)
    have "c \<notin> fst ` set result" using d sp by auto
    then have st: "dict_set result c ws = result @ [(c, ws)]" by (rule dict_set_new)
    have "distinct (map fst ((result @ [(c, ws)]) @ spec_split categories))" using d sp by simp
    from Cons.IH[OF this] show ?thesis using True
      by (simp add: cw st spec_split_Cons sp)
  next
    case False
    let ?m = "(length ws + 59) div 60"
    have np: "(int (length ws) + 60 - 1) div 60 = int ?m" by (simp add: zdiv_int)
    have m2: "1 < int ?m" using False by simp
    have sp: "spec_parts c ws =
        map (\<lambda>i. (c @ [95] @ str_nat (i + 1), take 60 (drop (i * 60) ws))) [0..<?m]"
      using False by (simp add: spec_parts_def)
    have d1: "distinct (map fst result @ map (\<lambda>i. c @ [95] @ str_nat (i + 1)) [0..<?m])"
      using d unfolding sp by (auto simp: comp_def)
    have parts: "split_parts c ws 60 (int ?m) [0..<?m] result = result @ spec_parts c ws"
      unfolding sp using m2 d1 by (rule split_parts_append)
    have "distinct (map fst ((result @ spec_parts c ws) @ spec_split categories))" using d by simp
    from Cons.IH[OF this] show ?thesis using False np parts
      by (simp add: cw spec_split_Cons Let_def)
  qed
qed

lemma spec_parts_concat: "concat (map snd (spec_parts c ws)) = ws"
proof (cases "length ws \<le> 60")
  case True
  then show ?thesis by (simp add: spec_parts_def)
next
  case False
  have "concat (map (\<lambda>i. take 60 (drop (i * 60) ws)) [0..<(length ws + 59) div 60]) =
        take ((length ws + 59) div 60 * 60) ws"
    by (rule concat_chunks)
  moreover have "length ws \<le> (length ws + 59) div 60 * 60" by presburger
  ultimately show ?thesis using False by (simp add: spec_parts_def comp_def)
qed

lemma spec_parts_small: "\<forall>p\<in>set (spec_parts c ws). length (snd p) \<le> 60"
  by (auto simp: spec_parts_def)

lemma spec_parts_61:
  "length ws = 61 \<Longrightarrow>
     spec_parts c ws = [(c @ [95] @ str_nat 1, take 60 ws), (c @ [95] @ str_nat 2, drop 60 ws)]"
  by (simp add: spec_parts_def upt_rec numeral_2_eq_2)

section \<open>The fragment sequence of a job\<close>

lemma tool_runs_tts:
  "Run_tool cmd \<in> set (fst (text_to_speech w text voice out)) \<Longrightarrow> cmd = Anullsrc 100 out"
  by (auto simp: text_to_speech_cases Let_def split: option.splits)

lemma tool_runs_process_entry:
  "Run_tool cmd \<in> set (fst (process_entry w td ssf n i entry acc)) \<Longrightarrow> \<exists>p. cmd = Anullsrc 100 p"
proof -
  obtain c e where entry: "entry = (c, e)" by (cases entry)
  assume "Run_tool cmd \<in> set (fst (process_entry w td ssf n i entry acc))"
  then show ?thesis unfolding entry
    by (cases e)
       (auto simp: process_entry_def fst_bind_io fst_gather2 Let_def
             split: sum.splits dest: tool_runs_tts)
qed

lemma tool_runs_process_words:
  "Run_tool cmd \<in> set (fst (process_words w td sf ssf n ies acc)) \<Longrightarrow> \<exists>p. cmd = Anullsrc 100 p"
proof (induction ies arbitrary: acc)
  case Nil
  then show ?case by simp
next
  case (Cons ie ies)
  obtain i entry where ie: "ie = (i, entry)" by (cases ie)
  from Cons.prems show ?case unfolding ie
    by (auto simp: fst_bind_io split: sum.splits dest: tool_runs_process_entry Cons.IH)
qed

lemma convert_log:
  assumes "parse_word_file (read_file w input_file) = Inr words"
      and "handed (fst (convert_file_to_mp3 w input_file output_opt)) \<noteq> []"
  shows "run_tool w (Anullsrc 800 (path_join (mkdtemp w input_file) (ascii ''silence.mp3''))) = None
     \<and> run_tool w (Anullsrc 500 (path_join (mkdtemp w input_file) (ascii ''short_silence.mp3''))) = None
     \<and> snd (process_words w (mkdtemp w input_file)
              (path_join (mkdtemp w input_file) (ascii ''silence.mp3''))
              (path_join (mkdtemp w input_file) (ascii ''short_silence.mp3''))
              (length words) (enumerate 0 words) []) = Inr (job_fragments w input_file words)
     \<and> fst (convert_file_to_mp3 w input_file output_opt) =
         [Print (Msg_processing input_file), Print (Msg_output (output_name input_file output_opt)),
          Print (Msg_found (length words)),
          Run_tool (Anullsrc 800 (path_join (mkdtemp w input_file) (ascii ''silence.mp3''))),
          Run_tool (Anullsrc 500 (path_join (mkdtemp w input_file) (ascii ''short_silence.mp3'')))] @
         fst (process_words w (mkdtemp w input_file)
              (path_join (mkdtemp w input_file) (ascii ''silence.mp3''))
              (path_join (mkdtemp w input_file) (ascii ''short_silence.mp3''))
              (length words) (enumerate 0 words) []) @
         [Print Msg_merging,
          Write_lines (path_join (mkdtemp w input_file) (ascii ''filelist.txt''))
            (map file_line (job_fragments w input_file words)),
          Run_tool (Concat (path_join (mkdtemp w input_file) (ascii ''filelist.txt''))
                      (output_name input_file output_opt))] @
         (case run_tool w (Concat (path_join (mkdtemp w input_file) (ascii ''filelist.txt''))
                             (output_name input_file output_opt)) of
            None \<Rightarrow> [Print (Msg_done (output_name input_file output_opt))]
          | Some e \<Rightarrow> [])"
proof -
  let ?td = "mkdtemp w input_file"
  let ?sf = "path_join ?td (ascii ''silence.mp3'')"
  let ?ssf = "path_join ?td (ascii ''short_silence.mp3'')"
  let ?pw = "process_words w ?td ?sf ?ssf (length words) (enumerate 0 words) []"
  let ?job = "convert_file_to_mp3 w input_file output_opt"
  have ne: "words \<noteq> []"
  proof
    assume "words = []"
    then have "handed (fst ?job) = []" using assms(1)
      by (simp add: convert_file_to_mp3_def Let_def)
    with assms(2) show False by simp
  qed
  have s1: "run_tool w (Anullsrc 800 ?sf) = None"
  proof (rule ccontr)
    assume "run_tool w (Anullsrc 800 ?sf) \<noteq> None"
    then obtain e where "run_tool w (Anullsrc 800 ?sf) = Some e" by auto
    then have "handed (fst ?job) = []" using assms(1) ne
      by (simp add: convert_file_to_mp3_def Let_def generate_silence_def PAUSE_BETWEEN_WORDS_def)
    with assms(2) show False by simp
  qed
  have s2: "run_tool w (Anullsrc 500 ?ssf) = None"
  proof (rule ccontr)
    assume "run_tool w (Anullsrc 500 ?ssf) \<noteq> None"
    then obtain e where "run_tool w (Anullsrc 500 ?ssf) = Some e" by auto
    then have "handed (fst ?job) = []" using assms(1) ne s1
      by (simp add: convert_file_to_mp3_def Let_def generate_silence_def PAUSE_BETWEEN_WORDS_def
          PAUSE_BETWEEN_LANGUAGES_def)
    with assms(2) show False by simp
  qed
  have pw: "snd ?pw = Inr (job_fragments w input_file words)"
  proof (cases "snd ?pw")
    case (Inl e)
    then have "handed (fst ?job) = []" using assms(1) ne s1 s2
      by (simp add: convert_file_to_mp3_def Let_def generate_silence_def PAUSE_BETWEEN_WORDS_def
          PAUSE_BETWEEN_LANGUAGES_def fst_bind_io)
    with assms(2) show ?thesis by simp
  next
    case (Inr fs)
    then have "fs = [] @ spec_fragments ?td ?sf ?ssf (enumerate 0 words)"
      by (rule process_words_result) simp
    then show ?thesis using Inr by (simp add: job_fragments_def Let_def)
  qed
  have log: "fst ?job =
         [Print (Msg_processing input_file), Print (Msg_output (output_name input_file output_opt)),
          Print (Msg_found (length words)), Run_tool (Anullsrc 800 ?sf), Run_tool (Anullsrc 500 ?ssf)] @
         fst ?pw @
         [Print Msg_merging,
          Write_lines (path_join ?td (ascii ''filelist.txt''))
            (map file_line (job_fragments w input_file words)),
          Run_tool (Concat (path_join ?td (ascii ''filelist.txt'')) (output_name input_file output_opt))] @
         (case run_tool w (Concat (path_join ?td (ascii ''filelist.txt''))
                             (output_name input_file output_opt)) of
            None \<Rightarrow> [Print (Msg_done (output_name input_file output_opt))]
          | Some e \<Rightarrow> [])"
    using assms(1) ne s1 s2 pw
    by (simp add: convert_file_to_mp3_def Let_def generate_silence_def PAUSE_BETWEEN_WORDS_def
        PAUSE_BETWEEN_LANGUAGES_def fst_bind_io snd_bind_io merge_audio_files_def output_name_def
        file_line_def split: option.splits)
  show ?thesis using s1 s2 pw log by blast
qed


lemma example_log:
  "fst (convert_file_to_mp3 good_world (ascii ''words.txt'') None) =
     [Print (Msg_processing (ascii ''words.txt'')), Print (Msg_output (ascii ''words.mp3'')),
      Print (Msg_found 2),
      Run_tool (Anullsrc 800 (ascii ''/tmp/job/silence.mp3'')),
      Run_tool (Anullsrc 500 (ascii ''/tmp/job/short_silence.mp3'')),
      Print (Msg_pair 1 2 [33529, 26524] (ascii ''apple'')),
      Synthesize [33529, 26524] (ascii ''zh-CN-XiaoxiaoNeural'') RATE (ascii ''/tmp/job/word_0_zh.mp3''),
      Synthesize (ascii ''apple'') (ascii ''en-US-JennyNeural'') RATE (ascii ''/tmp/job/word_0_en.mp3''),
      Print (Msg_pair 2 2 [39321, 34121] (ascii ''banana'')),
      Synthesize [39321, 34121] (ascii ''zh-CN-XiaoxiaoNeural'') RATE (ascii ''/tmp/job/word_1_zh.mp3''),
      Synthesize (ascii ''banana'') (ascii ''en-US-JennyNeural'') RATE (ascii ''/tmp/job/word_1_en.mp3''),
      Print Msg_merging,
      Write_lines (ascii ''/tmp/job/filelist.txt'')
        (map file_line
          [ascii ''/tmp/job/word_0_zh.mp3'', ascii ''/tmp/job/short_silence.mp3'',
           ascii ''/tmp/job/word_0_en.mp3'', ascii ''/tmp/job/silence.mp3'',
           ascii ''/tmp/job/word_1_zh.mp3'', ascii ''/tmp/job/short_silence.mp3'',
           ascii ''/tmp/job/word_1_en.mp3'']),
      Run_tool (Concat (ascii ''/tmp/job/filelist.txt'') (ascii ''words.mp3'')),
      Print (Msg_done (ascii ''words.mp3''))]"
proof -
  have p: "parse_word_file (read_file good_world (ascii ''words.txt'')) = Inr example_words"
    by (rule example_parse)
  show ?thesis
    unfolding convert_file_to_mp3_def Let_def p
    by (simp add: splitext_root_def rfind_def example_words_def fst_bind_io snd_bind_io generate_silence_def process_entry_def
        fst_gather2 snd_gather2 text_to_speech_cases merge_audio_files_def file_line_def good_world_def
        PAUSE_BETWEEN_WORDS_def PAUSE_BETWEEN_LANGUAGES_def enumerate_eq_zip upt_rec Let_def
        path_join_def str_nat.simps ascii_def)
qed


text \<open>
  C1. The job hands over at most one fragment sequence, and only after both shared
  pauses were made: the log of a job that hands one over starts with the run of the
  audio tool that makes the 800 ms clip at the inter-word silence file and the run
  that makes the 500 ms clip at the inter-language silence file, goes on with the
  synthesis of the entries (where the tool runs only for 100 ms fallback clips and
  nothing is written), and ends with the list file written with one line for each
  fragment followed by the one run of the concatenation tool on that same list
  file. The fragments are the layout of the specification: for each entry in
  document order its primary file alone, or its primary file, the inter-language
  silence file and its secondary file, with the inter-word silence file after every
  entry but the last; each primary and secondary file was synthesized from the
  text of its entry. With \<open>N \<ge> 1\<close> entries that all have a secondary text the
  sequence has \<open>3N + (N - 1)\<close> fragments, and an entry without secondary text
  counts for one. The sequence is handed over whenever the clips can be made.
\<close>

theorem fragment_sequence_layout:
  assumes "parse_word_file (read_file w input_file) = Inr words"
  shows "(handed (fst (convert_file_to_mp3 w input_file output_opt)) = [] \<or>
          handed (fst (convert_file_to_mp3 w input_file output_opt)) =
            [map file_line (job_fragments w input_file words)])
     \<and> (snd (convert_file_to_mp3 w input_file output_opt) = Inr True \<longrightarrow>
          words \<noteq> [] \<and>
          handed (fst (convert_file_to_mp3 w input_file output_opt)) =
            [map file_line (job_fragments w input_file words)] \<and>
          (\<forall>i c e. i < length words \<and> words ! i = (c, e) \<longrightarrow>
             Synthesize c (chinese_voice w) RATE (zh_file (mkdtemp w input_file) i)
               \<in> set (fst (convert_file_to_mp3 w input_file output_opt)) \<and>
             (\<forall>en. e = Some en \<longrightarrow>
                Synthesize en (english_voice w) RATE (en_file (mkdtemp w input_file) i)
                  \<in> set (fst (convert_file_to_mp3 w input_file output_opt)))))
     \<and> ((\<forall>cmd. run_tool w cmd = None) \<and> words \<noteq> [] \<longrightarrow>
          snd (convert_file_to_mp3 w input_file output_opt) = Inr True)
     \<and> (words \<noteq> [] \<longrightarrow>
          int (length (job_fragments w input_file words)) =
            (\<Sum>e\<leftarrow>words. case snd e of None \<Rightarrow> 1 | Some _ \<Rightarrow> 3) + (int (length words) - 1))
     \<and> (words \<noteq> [] \<and> (\<forall>e\<in>set words. snd e \<noteq> None) \<longrightarrow>
          int (length (job_fragments w input_file words)) =
            3 * int (length words) + (int (length words) - 1))
     \<and> (\<forall>i<length words. zh_file (mkdtemp w input_file) i \<in> set (job_fragments w input_file words))
     \<and> job_fragments w input_file words =
          spec_fragments (mkdtemp w input_file)
            (path_join (mkdtemp w input_file) (ascii ''silence.mp3''))
            (path_join (mkdtemp w input_file) (ascii ''short_silence.mp3'')) (enumerate 0 words)
     \<and> (handed (fst (convert_file_to_mp3 w input_file output_opt)) \<noteq> [] \<longrightarrow>
          words \<noteq> [] \<and>
          run_tool w (Anullsrc 800 (path_join (mkdtemp w input_file) (ascii ''silence.mp3''))) = None \<and>
          run_tool w (Anullsrc 500 (path_join (mkdtemp w input_file) (ascii ''short_silence.mp3''))) = None \<and>
          (\<exists>mid.
             fst (convert_file_to_mp3 w input_file output_opt) =
               [Print (Msg_processing input_file),
                Print (Msg_output (output_name input_file output_opt)),
                Print (Msg_found (length words)),
                Run_tool (Anullsrc 800 (path_join (mkdtemp w input_file) (ascii ''silence.mp3''))),
                Run_tool (Anullsrc 500 (path_join (mkdtemp w input_file) (ascii ''short_silence.mp3'')))] @
               mid @
               [Print Msg_merging,
                Write_lines (path_join (mkdtemp w input_file) (ascii ''filelist.txt''))
                  (map file_line (job_fragments w input_file words)),
                Run_tool (Concat (path_join (mkdtemp w input_file) (ascii ''filelist.txt''))
                            (output_name input_file output_opt))] @
               (case run_tool w (Concat (path_join (mkdtemp w input_file) (ascii ''filelist.txt''))
                                   (output_name input_file output_opt)) of
                  None \<Rightarrow> [Print (Msg_done (output_name input_file output_opt))]
                | Some e \<Rightarrow> []) \<and>
             handed mid = [] \<and>
             (\<forall>cmd. Run_tool cmd \<in> set mid \<longrightarrow> (\<exists>p. cmd = Anullsrc 100 p)) \<and>
             (\<forall>i c e. i < length words \<and> words ! i = (c, e) \<longrightarrow>
                Synthesize c (chinese_voice w) RATE (zh_file (mkdtemp w input_file) i) \<in> set mid \<and>
                (\<forall>en. e = Some en \<longrightarrow>
                   Synthesize en (english_voice w) RATE (en_file (mkdtemp w input_file) i) \<in> set mid))))
     \<and> ((\<forall>ms out. run_tool w (Anullsrc ms out) = None) \<and> words \<noteq> [] \<longrightarrow>
          handed (fst (convert_file_to_mp3 w input_file output_opt)) =
            [map file_line (job_fragments w input_file words)])"
proof -
  let ?job = "convert_file_to_mp3 w input_file output_opt"
  let ?fs = "job_fragments w input_file words"
  let ?td = "mkdtemp w input_file"
  let ?sf = "path_join ?td (ascii ''silence.mp3'')"
  let ?ssf = "path_join ?td (ascii ''short_silence.mp3'')"
  let ?pw = "process_words w ?td ?sf ?ssf (length words) (enumerate 0 words) []"
  obtain lines where l: "read_file w input_file = Some lines" and ws: "words = parse_lines lines []"
    using assms by (auto simp: parse_word_file_def split: option.splits)
  have a: "handed (fst ?job) = [] \<or> handed (fst ?job) = [map file_line ?fs]"
    using convert_handed[OF l] ws by simp
  have b: "snd ?job = Inr True \<longrightarrow> words \<noteq> [] \<and> handed (fst ?job) = [map file_line ?fs] \<and>
          (\<forall>i c e. i < length words \<and> words ! i = (c, e) \<longrightarrow>
             Synthesize c (chinese_voice w) RATE (zh_file ?td i) \<in> set (fst ?job) \<and>
             (\<forall>en. e = Some en \<longrightarrow>
                Synthesize en (english_voice w) RATE (en_file ?td i) \<in> set (fst ?job)))"
    using convert_True[OF assms] synth_convert[OF assms] by blast
  have c: "(\<forall>cmd. run_tool w cmd = None) \<and> words \<noteq> [] \<longrightarrow> snd ?job = Inr True"
    using convert_tool_ok[OF assms] by blast
  have len: "words \<noteq> [] \<longrightarrow> int (length ?fs) =
            (\<Sum>e\<leftarrow>words. case snd e of None \<Rightarrow> 1 | Some _ \<Rightarrow> 3) + (int (length words) - 1)"
  proof
    assume ne: "words \<noteq> []"
    then have "enumerate 0 words \<noteq> []" by simp
    from length_spec_fragments[OF this] show "int (length ?fs) =
            (\<Sum>e\<leftarrow>words. case snd e of None \<Rightarrow> 1 | Some _ \<Rightarrow> 3) + (int (length words) - 1)"
      unfolding job_fragments_def Let_def
      using sum_enumerate[of "\<lambda>e. case snd e of None \<Rightarrow> 1 | Some _ \<Rightarrow> (3::int)" 0 words]
      by simp
  qed
  have d: "words \<noteq> [] \<and> (\<forall>e\<in>set words. snd e \<noteq> None) \<longrightarrow>
          int (length ?fs) = 3 * int (length words) + (int (length words) - 1)"
    using len sum_bilingual[of words] by simp
  have e: "\<forall>i<length words. zh_file ?td i \<in> set ?fs"
  proof (intro allI impI)
    fix i assume "i < length words"
    then have "(i, words ! i) \<in> set (enumerate 0 words)" by (simp add: in_set_enumerate_eq)
    then show "zh_file ?td i \<in> set ?fs"
      unfolding job_fragments_def Let_def by (rule zh_in_spec_fragments)
  qed
  have f: "?fs = spec_fragments ?td ?sf ?ssf (enumerate 0 words)"
    by (simp add: job_fragments_def Let_def)
  have g: "handed (fst ?job) \<noteq> [] \<longrightarrow>
          words \<noteq> [] \<and> run_tool w (Anullsrc 800 ?sf) = None \<and> run_tool w (Anullsrc 500 ?ssf) = None \<and>
          (\<exists>mid.
             fst ?job =
               [Print (Msg_processing input_file),
                Print (Msg_output (output_name input_file output_opt)),
                Print (Msg_found (length words)),
                Run_tool (Anullsrc 800 ?sf), Run_tool (Anullsrc 500 ?ssf)] @
               mid @
               [Print Msg_merging,
                Write_lines (path_join ?td (ascii ''filelist.txt'')) (map file_line ?fs),
                Run_tool (Concat (path_join ?td (ascii ''filelist.txt''))
                            (output_name input_file output_opt))] @
               (case run_tool w (Concat (path_join ?td (ascii ''filelist.txt''))
                                   (output_name input_file output_opt)) of
                  None \<Rightarrow> [Print (Msg_done (output_name input_file output_opt))]
                | Some e \<Rightarrow> []) \<and>
             handed mid = [] \<and>
             (\<forall>cmd. Run_tool cmd \<in> set mid \<longrightarrow> (\<exists>p. cmd = Anullsrc 100 p)) \<and>
             (\<forall>i c e. i < length words \<and> words ! i = (c, e) \<longrightarrow>
                Synthesize c (chinese_voice w) RATE (zh_file ?td i) \<in> set mid \<and>
                (\<forall>en. e = Some en \<longrightarrow>
                   Synthesize en (english_voice w) RATE (en_file ?td i) \<in> set mid)))"
  proof
    assume h: "handed (fst ?job) \<noteq> []"
    have ne: "words \<noteq> []"
    proof
      assume "words = []"
      then have "handed (fst ?job) = []" using assms by (simp add: convert_file_to_mp3_def Let_def)
      with h show False by simp
    qed
    note cl = convert_log[OF assms h]
    have pw: "snd ?pw = Inr ?fs" using cl by blast
    have m1: "handed (fst ?pw) = []" by simp
    have m2: "\<forall>cmd. Run_tool cmd \<in> set (fst ?pw) \<longrightarrow> (\<exists>p. cmd = Anullsrc 100 p)"
      using tool_runs_process_words by blast
    have m3: "\<forall>i c e. i < length words \<and> words ! i = (c, e) \<longrightarrow>
                Synthesize c (chinese_voice w) RATE (zh_file ?td i) \<in> set (fst ?pw) \<and>
                (\<forall>en. e = Some en \<longrightarrow>
                   Synthesize en (english_voice w) RATE (en_file ?td i) \<in> set (fst ?pw))"
    proof (intro allI impI)
      fix i c e assume "i < length words \<and> words ! i = (c, e)"
      then have "(i, c, e) \<in> set (enumerate 0 words)" by (auto simp: in_set_enumerate_eq)
      from synth_process_words[OF pw this]
      show "Synthesize c (chinese_voice w) RATE (zh_file ?td i) \<in> set (fst ?pw) \<and>
                (\<forall>en. e = Some en \<longrightarrow>
                   Synthesize en (english_voice w) RATE (en_file ?td i) \<in> set (fst ?pw))" .
    qed
    show "words \<noteq> [] \<and> run_tool w (Anullsrc 800 ?sf) = None \<and> run_tool w (Anullsrc 500 ?ssf) = None \<and>
          (\<exists>mid.
             fst ?job =
               [Print (Msg_processing input_file),
                Print (Msg_output (output_name input_file output_opt)),
                Print (Msg_found (length words)),
                Run_tool (Anullsrc 800 ?sf), Run_tool (Anullsrc 500 ?ssf)] @
               mid @
               [Print Msg_merging,
                Write_lines (path_join ?td (ascii ''filelist.txt'')) (map file_line ?fs),
                Run_tool (Concat (path_join ?td (ascii ''filelist.txt''))
                            (output_name input_file output_opt))] @
               (case run_tool w (Concat (path_join ?td (ascii ''filelist.txt''))
                                   (output_name input_file output_opt)) of
                  None \<Rightarrow> [Print (Msg_done (output_name input_file output_opt))]
                | Some e \<Rightarrow> []) \<and>
             handed mid = [] \<and>
             (\<forall>cmd. Run_tool cmd \<in> set mid \<longrightarrow> (\<exists>p. cmd = Anullsrc 100 p)) \<and>
             (\<forall>i c e. i < length words \<and> words ! i = (c, e) \<longrightarrow>
                Synthesize c (chinese_voice w) RATE (zh_file ?td i) \<in> set mid \<and>
                (\<forall>en. e = Some en \<longrightarrow>
                   Synthesize en (english_voice w) RATE (en_file ?td i) \<in> set mid)))"
      using ne cl m1 m2 m3 by (intro conjI exI[of _ "fst ?pw"]) blast+
  qed
  have r: "(\<forall>ms out. run_tool w (Anullsrc ms out) = None) \<and> words \<noteq> [] \<longrightarrow>
          handed (fst ?job) = [map file_line ?fs]"
    using convert_reaches_merge[OF assms, of output_opt] by blast
  show ?thesis using a b c len d e f g r by blast
qed


theorem fragment_sequence_layout_witness:
  "parse_word_file (read_file good_world (ascii ''words.txt'')) = Inr example_words
   \<and> example_words \<noteq> [] \<and> list_all (\<lambda>e. snd e \<noteq> None) example_words
   \<and> (\<forall>cmd. run_tool good_world cmd = None)
   \<and> snd (convert_file_to_mp3 good_world (ascii ''words.txt'') None) = Inr True
   \<and> handed (fst (convert_file_to_mp3 good_world (ascii ''words.txt'') None)) =
       [map file_line
         [ascii ''/tmp/job/word_0_zh.mp3'', ascii ''/tmp/job/short_silence.mp3'',
          ascii ''/tmp/job/word_0_en.mp3'', ascii ''/tmp/job/silence.mp3'',
          ascii ''/tmp/job/word_1_zh.mp3'', ascii ''/tmp/job/short_silence.mp3'',
          ascii ''/tmp/job/word_1_en.mp3'']]
   \<and> int (length (job_fragments good_world (ascii ''words.txt'') example_words)) = 3 * 2 + (2 - 1)
   \<and> fst (convert_file_to_mp3 good_world (ascii ''words.txt'') None) =
     [Print (Msg_processing (ascii ''words.txt'')), Print (Msg_output (ascii ''words.mp3'')),
      Print (Msg_found 2),
      Run_tool (Anullsrc 800 (ascii ''/tmp/job/silence.mp3'')),
      Run_tool (Anullsrc 500 (ascii ''/tmp/job/short_silence.mp3'')),
      Print (Msg_pair 1 2 [33529, 26524] (ascii ''apple'')),
      Synthesize [33529, 26524] (ascii ''zh-CN-XiaoxiaoNeural'') RATE (ascii ''/tmp/job/word_0_zh.mp3''),
      Synthesize (ascii ''apple'') (ascii ''en-US-JennyNeural'') RATE (ascii ''/tmp/job/word_0_en.mp3''),
      Print (Msg_pair 2 2 [39321, 34121] (ascii ''banana'')),
      Synthesize [39321, 34121] (ascii ''zh-CN-XiaoxiaoNeural'') RATE (ascii ''/tmp/job/word_1_zh.mp3''),
      Synthesize (ascii ''banana'') (ascii ''en-US-JennyNeural'') RATE (ascii ''/tmp/job/word_1_en.mp3''),
      Print Msg_merging,
      Write_lines (ascii ''/tmp/job/filelist.txt'')
        (map file_line
          [ascii ''/tmp/job/word_0_zh.mp3'', ascii ''/tmp/job/short_silence.mp3'',
           ascii ''/tmp/job/word_0_en.mp3'', ascii ''/tmp/job/silence.mp3'',
           ascii ''/tmp/job/word_1_zh.mp3'', ascii ''/tmp/job/short_silence.mp3'',
           ascii ''/tmp/job/word_1_en.mp3'']),
      Run_tool (Concat (ascii ''/tmp/job/filelist.txt'') (ascii ''words.mp3'')),
      Print (Msg_done (ascii ''words.mp3''))]"
proof -
  have h1: "parse_word_file (read_file good_world (ascii ''words.txt'')) = Inr example_words"
    by (rule example_parse)
  have h2: "example_words \<noteq> [] \<and> (\<forall>e\<in>set example_words. snd e \<noteq> None)"
    by (simp add: example_words_def)
  have h3: "\<forall>cmd. run_tool good_world cmd = None" by (simp add: good_world_def)
  have n: "length example_words = 2" by (simp add: example_words_def)
  note T = fragment_sequence_layout[OF h1, of None]
  have t1: "snd (convert_file_to_mp3 good_world (ascii ''words.txt'') None) = Inr True"
    using T h2 h3 by blast
  have t2: "handed (fst (convert_file_to_mp3 good_world (ascii ''words.txt'') None)) =
       [map file_line (job_fragments good_world (ascii ''words.txt'') example_words)]"
    using T t1 by blast
  have "int (length (job_fragments good_world (ascii ''words.txt'') example_words)) =
          3 * int (length example_words) + (int (length example_words) - 1)"
    using T h2 by blast
  then have t3: "int (length (job_fragments good_world (ascii ''words.txt'') example_words)) = 3 * 2 + (2 - 1)"
    unfolding n by simp
  have l: "list_all (\<lambda>e. snd e \<noteq> None) example_words" using h2 by (simp add: list_all_iff)
  have main: "parse_word_file (read_file good_world (ascii ''words.txt'')) = Inr example_words
   \<and> example_words \<noteq> [] \<and> list_all (\<lambda>e. snd e \<noteq> None) example_words
   \<and> (\<forall>cmd. run_tool good_world cmd = None)
   \<and> snd (convert_file_to_mp3 good_world (ascii ''words.txt'') None) = Inr True
   \<and> handed (fst (convert_file_to_mp3 good_world (ascii ''words.txt'') None)) =
       [map file_line (job_fragments good_world (ascii ''words.txt'') example_words)]
   \<and> int (length (job_fragments good_world (ascii ''words.txt'') example_words)) = 3 * 2 + (2 - 1)"
    using h1 h2 h3 l t1 t2 t3 by blast
  show ?thesis using main example_log unfolding example_fragments by blast
qed

section \<open>Names of the parts of a split category\<close>

lemma str_nat_nonempty: "str_nat n \<noteq> []"
  by (subst str_nat.simps) simp

lemma str_nat_digits: "\<forall>d\<in>set (str_nat n). 48 \<le> d \<and> d \<le> 57"
proof (induction n rule: str_nat.induct)
  case (1 n)
  show ?case
  proof (cases "n < 10")
    case True
    then show ?thesis by (subst str_nat.simps) simp
  next
    case False
    have "n mod 10 < 10" by simp
    then have "48 + n mod 10 \<le> 57" by linarith
    then show ?thesis using False 1 by (subst str_nat.simps) auto
  qed
qed

lemma str_nat_inj: "str_nat n = str_nat m \<Longrightarrow> n = m"
proof (induction n arbitrary: m rule: str_nat.induct)
  case (1 n)
  show ?case
  proof (cases "n < 10")
    case n: True
    show ?thesis
    proof (cases "m < 10")
      case True
      then show ?thesis using n "1.prems" by (simp add: str_nat.simps[of n] str_nat.simps[of m])
    next
      case False
      have "length (str_nat m) \<ge> 2"
        using False str_nat_nonempty[of "m div 10"]
        by (subst str_nat.simps) (cases "str_nat (m div 10)", simp_all)
      moreover have "length (str_nat n) = 1" using n by (subst str_nat.simps) simp
      ultimately show ?thesis using "1.prems" by simp
    qed
  next
    case n: False
    show ?thesis
    proof (cases "m < 10")
      case True
      have "length (str_nat n) \<ge> 2"
        using n str_nat_nonempty[of "n div 10"]
        by (subst str_nat.simps) (cases "str_nat (n div 10)", simp_all)
      moreover have "length (str_nat m) = 1" using True by (subst str_nat.simps) simp
      ultimately show ?thesis using "1.prems" by simp
    next
      case False
      have "str_nat (n div 10) @ [48 + n mod 10] = str_nat (m div 10) @ [48 + m mod 10]"
        using n False "1.prems" by (simp add: str_nat.simps[of n] str_nat.simps[of m])
      then have a: "str_nat (n div 10) = str_nat (m div 10)" and b: "n mod 10 = m mod 10"
        by simp_all
      have "n div 10 = m div 10" using "1.IH"[OF n a] .
      then show ?thesis using b by (metis div_mult_mod_eq)
    qed
  qed
qed

lemma origin_plain: "95 \<notin> set c \<Longrightarrow> takeWhile (\<lambda>x. x \<noteq> 95) c = c"
  for c :: pystr
  by (induction c) auto

lemma origin_part: "95 \<notin> set c \<Longrightarrow> takeWhile (\<lambda>x. x \<noteq> 95) (c @ [95] @ s) = c"
  for c :: pystr
  by (induction c) auto

lemma spec_parts_origin:
  "95 \<notin> set c \<Longrightarrow> k \<in> fst ` set (spec_parts c ws) \<Longrightarrow> takeWhile (\<lambda>x. x \<noteq> 95) k = c"
  using origin_plain[of c] origin_part[of c]
  by (auto simp: spec_parts_def split: if_splits)

lemma spec_parts_distinct: "distinct (map fst (spec_parts c ws))"
proof (cases "length ws \<le> 60")
  case True
  then show ?thesis by (simp add: spec_parts_def)
next
  case False
  have "inj_on (\<lambda>i. c @ [95] @ str_nat (i + 1)) {0..<(length ws + 59) div 60}"
    by (rule inj_onI) (auto dest: str_nat_inj)
  then show ?thesis using False by (simp add: spec_parts_def comp_def distinct_map)
qed

lemma spec_split_origin:
  "\<forall>c\<in>fst ` set categories. 95 \<notin> set c \<Longrightarrow> k \<in> fst ` set (spec_split categories) \<Longrightarrow>
     takeWhile (\<lambda>x. x \<noteq> 95) k \<in> fst ` set categories"
proof (induction categories)
  case Nil
  then show ?case by (simp add: spec_split_def)
next
  case (Cons cw categories)
  obtain c ws where cw: "cw = (c, ws)" by (cases cw)
  from Cons.prems(2) have "k \<in> fst ` set (spec_parts c ws) \<or> k \<in> fst ` set (spec_split categories)"
    by (auto simp: cw spec_split_Cons)
  then show ?case
  proof
    assume "k \<in> fst ` set (spec_parts c ws)"
    moreover have "95 \<notin> set c" using Cons.prems(1) by (simp add: cw)
    ultimately have "takeWhile (\<lambda>x. x \<noteq> 95) k = c" by (rule spec_parts_origin[rotated])
    then show ?thesis by (simp add: cw)
  next
    assume "k \<in> fst ` set (spec_split categories)"
    then have "takeWhile (\<lambda>x. x \<noteq> 95) k \<in> fst ` set categories"
      using Cons.IH Cons.prems(1) by simp
    then show ?thesis by simp
  qed
qed

lemma spec_split_distinct:
  "distinct (map fst categories) \<Longrightarrow> \<forall>c\<in>fst ` set categories. 95 \<notin> set c \<Longrightarrow>
     distinct (map fst (spec_split categories))"
proof (induction categories)
  case Nil
  show ?case by (simp add: spec_split_def)
next
  case (Cons cw categories)
  obtain c ws where cw: "cw = (c, ws)" by (cases cw)
  have c95: "95 \<notin> set c" using Cons.prems(2) by (simp add: cw)
  have rest95: "\<forall>c\<in>fst ` set categories. 95 \<notin> set c" using Cons.prems(2) by simp
  have cnew: "c \<notin> fst ` set categories" using Cons.prems(1) by (simp add: cw)
  have ih: "distinct (map fst (spec_split categories))" using Cons.IH Cons.prems rest95 by simp
  have disj: "fst ` set (spec_parts c ws) \<inter> fst ` set (spec_split categories) = {}"
  proof (rule ccontr)
    assume "fst ` set (spec_parts c ws) \<inter> fst ` set (spec_split categories) \<noteq> {}"
    then obtain k where k1: "k \<in> fst ` set (spec_parts c ws)"
      and k2: "k \<in> fst ` set (spec_split categories)" by blast
    have "takeWhile (\<lambda>x. x \<noteq> 95) k = c" using c95 k1 by (rule spec_parts_origin)
    moreover have "takeWhile (\<lambda>x. x \<noteq> 95) k \<in> fst ` set categories"
      using rest95 k2 by (rule spec_split_origin)
    ultimately show False using cnew by simp
  qed
  show ?case using ih spec_parts_distinct[of c ws] disj
    by (simp add: cw spec_split_Cons)
qed

section \<open>The claim about the category split\<close>

lemma str_nat_1: "str_nat 1 = ascii ''1''"
  by (simp add: str_nat.simps ascii_def)

lemma str_nat_2: "str_nat 2 = ascii ''2''"
  by (simp add: str_nat.simps ascii_def)

lemma colliding_split:
  "split_large_categories colliding_categories 60 =
     Inr [(ascii ''A_1'', map str_nat [1..<61]), (ascii ''A_2'', [str_nat 61])]"
  by code_simp

lemma plain_split:
  "spec_split plain_categories =
     [(ascii ''food_1'', map str_nat [1..<61]), (ascii ''food_2'', [str_nat 61]),
      (ascii ''time'', [ascii ''day''])]"
  by code_simp

lemma colliding_split_rev:
  "split_large_categories [(ascii ''A'', map str_nat [1..<62]), (ascii ''A_1'', [ascii ''x''])] 60 =
     Inr [(ascii ''A_1'', [ascii ''x'']), (ascii ''A_2'', [str_nat 61])]"
  by code_simp

lemma sizes_sum: "sum_list (map (\<lambda>p. length (snd p)) ps) = length (concat (map snd ps))"
  by (induction ps) simp_all

text \<open>
  C5, as the code has it. For every category mapping the split returns a mapping in
  which no category has more than 60 words. When the names it produces are pairwise
  distinct, as they are when the category names are distinct and hold no
  underscore, the result is, category after category: a category of at most 60
  words whole under its own name, and a category of \<open>n > 60\<close> words as the
  consecutive slices of 60 words (the last one shorter), named \<open>name_1\<close>,
  \<open>name_2\<close>, ..., whose sizes sum to \<open>n\<close>; a category of 61 words gives two parts
  of 60 words and of 1 word.
\<close>

theorem split_large_categories_parts:
  "(\<exists>res. split_large_categories categories 60 = Inr res \<and> (\<forall>p\<in>set res. length (snd p) \<le> 60))
   \<and> (distinct (map fst (spec_split categories)) \<longrightarrow>
        split_large_categories categories 60 = Inr (spec_split categories))
   \<and> (distinct (map fst categories) \<and> (\<forall>c\<in>fst ` set categories. 95 \<notin> set c) \<longrightarrow>
        distinct (map fst (spec_split categories)))
   \<and> concat (map snd (spec_parts cat_name words)) = words
   \<and> sum_list (map (\<lambda>p. length (snd p)) (spec_parts cat_name words)) = length words
   \<and> (\<forall>p\<in>set (spec_parts cat_name words). length (snd p) \<le> 60)
   \<and> (length words \<le> 60 \<longrightarrow> spec_parts cat_name words = [(cat_name, words)])
   \<and> (length words = 61 \<longrightarrow>
        spec_parts cat_name words =
          [(cat_name @ ascii ''_1'', take 60 words), (cat_name @ ascii ''_2'', drop 60 words)]
        \<and> length (take 60 words) = 60 \<and> length (drop 60 words) = 1)"
proof -
  have a: "\<exists>res. split_large_categories categories 60 = Inr res \<and> (\<forall>p\<in>set res. length (snd p) \<le> 60)"
    unfolding split_large_categories_def by (rule split_loop_small) simp
  have b: "distinct (map fst (spec_split categories)) \<longrightarrow>
        split_large_categories categories 60 = Inr (spec_split categories)"
    unfolding split_large_categories_def using split_loop_spec[of "[]" categories] by simp
  have c: "distinct (map fst categories) \<and> (\<forall>c\<in>fst ` set categories. 95 \<notin> set c) \<longrightarrow>
        distinct (map fst (spec_split categories))"
    using spec_split_distinct[of categories] by blast
  have d: "concat (map snd (spec_parts cat_name words)) = words" by (rule spec_parts_concat)
  have e: "sum_list (map (\<lambda>p. length (snd p)) (spec_parts cat_name words)) = length words"
    unfolding sizes_sum d ..
  have f: "\<forall>p\<in>set (spec_parts cat_name words). length (snd p) \<le> 60" by (rule spec_parts_small)
  have g: "length words \<le> 60 \<longrightarrow> spec_parts cat_name words = [(cat_name, words)]"
    by (simp add: spec_parts_def)
  have h: "length words = 61 \<longrightarrow>
        spec_parts cat_name words =
          [(cat_name @ ascii ''_1'', take 60 words), (cat_name @ ascii ''_2'', drop 60 words)]
        \<and> length (take 60 words) = 60 \<and> length (drop 60 words) = 1"
    using spec_parts_61[of words cat_name]
    by (simp add: str_nat.simps ascii_def)
  show ?thesis using a b c d e f g h by blast
qed

theorem split_large_categories_parts_witness:
  "distinct (map fst plain_categories)
   \<and> list_all (\<lambda>c. 95 \<notin> set c) (map fst plain_categories)
   \<and> split_large_categories plain_categories 60 =
       Inr [(ascii ''food_1'', map str_nat [1..<61]), (ascii ''food_2'', [str_nat 61]),
            (ascii ''time'', [ascii ''day''])]
   \<and> length (map str_nat [1..<62]) = 61
   \<and> spec_parts (ascii ''food'') (map str_nat [1..<62]) =
       [(ascii ''food'' @ ascii ''_1'', take 60 (map str_nat [1..<62])),
        (ascii ''food'' @ ascii ''_2'', drop 60 (map str_nat [1..<62]))]"
proof -
  have h1: "distinct (map fst plain_categories)"
    by (simp add: plain_categories_def ascii_def)
  have h2: "\<forall>c\<in>fst ` set plain_categories. 95 \<notin> set c"
    by (simp add: plain_categories_def ascii_def)
  have h3: "length (map str_nat [1..<62]) = 61" by simp
  note T = split_large_categories_parts[of plain_categories "ascii ''food''" "map str_nat [1..<62]"]
  have r: "split_large_categories plain_categories 60 = Inr (spec_split plain_categories)"
    using T h1 h2 by blast
  have p: "spec_parts (ascii ''food'') (map str_nat [1..<62]) =
       [(ascii ''food'' @ ascii ''_1'', take 60 (map str_nat [1..<62])),
        (ascii ''food'' @ ascii ''_2'', drop 60 (map str_nat [1..<62]))]"
    using T h3 by blast
  have l: "list_all (\<lambda>c. 95 \<notin> set c) (map fst plain_categories)"
    using h2 by (simp add: list_all_iff)
  show ?thesis using h1 l r p h3 unfolding plain_split by blast
qed

theorem split_large_categories_collision_counterexample:
  "split_large_categories [(ascii ''A_1'', [ascii ''x'']), (ascii ''A'', map str_nat [1..<62])] 60 =
     Inr [(ascii ''A_1'', map str_nat [1..<61]), (ascii ''A_2'', [str_nat 61])]
   \<and> split_large_categories [(ascii ''A'', map str_nat [1..<62]), (ascii ''A_1'', [ascii ''x''])] 60 =
     Inr [(ascii ''A_1'', [ascii ''x'']), (ascii ''A_2'', [str_nat 61])]"
  using colliding_split colliding_split_rev unfolding colliding_categories_def by blast

section \<open>Properties of the translation loops\<close>

lemma batch_texts_append [simp]: "batch_texts (a @ b) = batch_texts a @ batch_texts b"
  by (simp add: batch_texts_def)

lemma word_texts_append [simp]: "word_texts (a @ b) = word_texts a @ word_texts b"
  by (simp add: word_texts_def)

lemma div50_multiple:
  assumes "n mod 50 = 0"
  shows "(Suc n + 49) div 50 = Suc ((n + 49) div 50)" and "(n + 49) div 50 * 50 = n"
proof -
  define q where "q = n div 50"
  have n: "n = 50 * q" using assms div_mult_mod_eq[of n 50] by (simp add: q_def)
  have a: "(50 * q + 49) div 50 = q" by simp
  have b: "(Suc (50 * q) + 49) div 50 = Suc q" by simp
  show "(Suc n + 49) div 50 = Suc ((n + 49) div 50)" unfolding n a b ..
  show "(n + 49) div 50 * 50 = n" unfolding n a by simp
qed

lemma div50_other:
  assumes "n mod 50 \<noteq> 0"
  shows "(Suc n + 49) div 50 = (n + 49) div 50"
proof -
  define q where "q = n div 50"
  define r where "r = n mod 50"
  have n: "n = 50 * q + r" by (simp add: q_def r_def)
  have r: "0 < r" "r < 50" using assms by (simp_all add: r_def)
  have a: "(50 * q + r + 49) div 50 = Suc q"
    using r by (intro div_nat_eqI) simp_all
  have b: "(Suc (50 * q + r) + 49) div 50 = Suc q"
    using r by (intro div_nat_eqI) simp_all
  show ?thesis unfolding n a b ..
qed

lemma filter_mod_50:
  "[i \<leftarrow> [0..<n]. i mod 50 = 0] = map (\<lambda>j. j * 50) [0..<(n + 49) div 50]"
proof (induction n)
  case 0
  show ?case by simp
next
  case (Suc n)
  have split: "[i \<leftarrow> [0..<Suc n]. i mod 50 = 0] =
               [i \<leftarrow> [0..<n]. i mod 50 = 0] @ (if n mod 50 = 0 then [n] else [])"
    by (simp only: upt_Suc_append[OF le0] filter_append filter.simps)
  show ?case
  proof (cases "n mod 50 = 0")
    case True
    note q = div50_multiple(1)[OF True] and v = div50_multiple(2)[OF True]
    have "map (\<lambda>j. j * 50) [0..<Suc ((n + 49) div 50)] =
          map (\<lambda>j. j * 50) [0..<(n + 49) div 50] @ [n]"
      by (simp only: upt_Suc_append[OF le0] map_append list.map v)
    then show ?thesis unfolding split q Suc.IH using True by (simp only: if_True simp_thms)
  next
    case False
    note q = div50_other[OF False]
    show ?thesis unfolding split q Suc.IH using False by (simp only: if_False append_Nil2 simp_thms)
  qed
qed

lemma covers_50: "length xs \<le> (length xs + 49) div 50 * 50"
proof -
  define q where "q = length xs div 50"
  define r where "r = length xs mod 50"
  have n: "length xs = 50 * q + r" by (simp add: q_def r_def)
  have r: "r < 50" by (simp add: r_def)
  show ?thesis
  proof (cases "r = 0")
    case True
    then show ?thesis unfolding n by simp
  next
    case False
    have "(50 * q + r + 49) div 50 = Suc q" using r False by (intro div_nat_eqI) simp_all
    then show ?thesis unfolding n using r by simp
  qed
qed

lemma concat_spec_batches: "concat (spec_batches xs) = xs"
proof -
  have "concat (map (\<lambda>j. take 50 (drop (j * 50) xs)) [0..<(length xs + 49) div 50]) =
        take ((length xs + 49) div 50 * 50) xs"
    by (rule concat_chunks)
  moreover have "length xs \<le> (length xs + 49) div 50 * 50" by (rule covers_50)
  ultimately show ?thesis by (simp add: spec_batches_def)
qed

lemma translate_each_dict:
  "w \<notin> set batch \<Longrightarrow>
     dict_get (fst (snd (translate_each tr batch (k, d, evs)))) w = dict_get d w"
proof (induction batch arbitrary: k d evs)
  case Nil
  show ?case by simp
next
  case (Cons x batch)
  then have ne: "w \<noteq> x" and rest: "w \<notin> set batch" by auto
  show ?case
    using Cons.IH[OF rest] ne
    by (cases "tr k x") (simp_all add: dict_get_dict_set_other)
qed

lemma translate_each_events:
  "\<exists>new. snd (snd (translate_each tr batch (k, d, evs))) = evs @ new
       \<and> word_texts new = batch \<and> batch_texts new = []
       \<and> (\<forall>ev\<in>set new. \<exists>x r. ev = Translate_word x r \<and> x \<in> set batch)"
proof (induction batch arbitrary: k d evs)
  case Nil
  show ?case by (simp add: word_texts_def batch_texts_def)
next
  case (Cons x batch)
  show ?case
  proof (cases "tr k x")
    case None
    obtain new where n: "snd (snd (translate_each tr batch (k + 1, dict_set d x x, evs @ [Translate_word x None])))
        = (evs @ [Translate_word x None]) @ new"
      and w: "word_texts new = batch" and b: "batch_texts new = []"
      and m: "\<forall>ev\<in>set new. \<exists>x r. ev = Translate_word x r \<and> x \<in> set batch"
      using Cons.IH[of "k + 1" "dict_set d x x" "evs @ [Translate_word x None]"] by blast
    show ?thesis
      using None n w b m
      by (intro exI[of _ "Translate_word x None # new"]) (auto simp: word_texts_def batch_texts_def)
  next
    case (Some t)
    obtain new where n: "snd (snd (translate_each tr batch (k + 1, dict_set d x t, evs @ [Translate_word x (Some t)])))
        = (evs @ [Translate_word x (Some t)]) @ new"
      and w: "word_texts new = batch" and b: "batch_texts new = []"
      and m: "\<forall>ev\<in>set new. \<exists>x r. ev = Translate_word x r \<and> x \<in> set batch"
      using Cons.IH[of "k + 1" "dict_set d x t" "evs @ [Translate_word x (Some t)]"] by blast
    show ?thesis
      using Some n w b m
      by (intro exI[of _ "Translate_word x (Some t) # new"]) (auto simp: word_texts_def batch_texts_def)
  qed
qed

lemma assign_batch_dict:
  "w \<notin> set batch \<Longrightarrow> dict_get (assign_batch batch translated d) w = dict_get d w"
proof (induction batch arbitrary: translated d)
  case Nil
  show ?case by (simp add: assign_batch_def)
next
  case (Cons x batch)
  then have ne: "w \<noteq> x" and rest: "w \<notin> set batch" by auto
  show ?case
  proof (cases translated)
    case Nil
    then show ?thesis by (simp add: assign_batch_def)
  next
    case (Cons t ts)
    have "assign_batch (x # batch) (t # ts) d = assign_batch batch ts (dict_set d x (strip t))"
      by (simp add: assign_batch_def)
    then show ?thesis using Cons.IH[OF rest, of ts "dict_set d x (strip t)"] ne Cons
      by (simp add: dict_get_dict_set_other)
  qed
qed

section \<open>The claim about the translation cache\<close>

lemma batch_subset: "set (take 50 (drop i xs)) \<subseteq> set xs"
  by (meson in_set_dropD in_set_takeD subsetI)

lemma translate_batches_dict:
  "w \<notin> set wtt \<Longrightarrow>
     dict_get (fst (snd (translate_batches tr wtt idxs (k, d, evs)))) w = dict_get d w"
proof (induction idxs arbitrary: k d evs)
  case Nil
  show ?case by simp
next
  case (Cons i idxs)
  let ?batch = "take 50 (drop i wtt)"
  have nb: "w \<notin> set ?batch" using Cons.prems batch_subset[of i wtt] by blast
  show ?case
  proof (cases "tr k (join_nl ?batch)")
    case (Some result)
    show ?thesis
      using Some Cons.IH[OF Cons.prems] assign_batch_dict[OF nb]
      by (simp add: Let_def)
  next
    case None
    obtain k' d' evs' where te: "translate_each tr ?batch
        (k + 1, d, evs @ [Translate_batch (join_nl ?batch) None, Print_batch_failed]) = (k', d', evs')"
      by (rule prod_cases3)
    have "dict_get d' w = dict_get d w"
      using translate_each_dict[OF nb, of tr "k + 1" d
          "evs @ [Translate_batch (join_nl ?batch) None, Print_batch_failed]"] te by simp
    then show ?thesis using None te Cons.IH[OF Cons.prems, of k' d' evs'] by (simp add: Let_def)
  qed
qed

lemma translate_batches_events:
  "batch_texts (snd (snd (translate_batches tr wtt idxs (k, d, evs)))) =
     batch_texts evs @ map (\<lambda>i. join_nl (take 50 (drop i wtt))) idxs
   \<and> set (word_texts (snd (snd (translate_batches tr wtt idxs (k, d, evs))))) \<subseteq>
       set (word_texts evs) \<union> set wtt"
proof (induction idxs arbitrary: k d evs)
  case Nil
  show ?case by simp
next
  case (Cons i idxs)
  let ?batch = "take 50 (drop i wtt)"
  show ?case
  proof (cases "tr k (join_nl ?batch)")
    case (Some result)
    let ?evs = "evs @ [Translate_batch (join_nl ?batch) (Some result)] @
               (if (i + 50) mod 200 = 0
                then [Print_progress (min (i + 50) (length wtt)) (length wtt)] else [])"
    have b: "batch_texts ?evs = batch_texts evs @ [join_nl ?batch]"
      by (simp add: batch_texts_def)
    have w: "word_texts ?evs = word_texts evs" by (simp add: word_texts_def)
    show ?thesis
      using Some Cons.IH[of "k + 1" "assign_batch ?batch (split_nl result) d" ?evs] b w
      by (simp add: Let_def)
  next
    case None
    let ?evs = "evs @ [Translate_batch (join_nl ?batch) None, Print_batch_failed]"
    obtain k' d' evs' where te: "translate_each tr ?batch (k + 1, d, ?evs) = (k', d', evs')"
      by (rule prod_cases3)
    obtain new where n: "evs' = ?evs @ new" and wn: "word_texts new = ?batch"
      and bn: "batch_texts new = []"
      using translate_each_events[of tr ?batch "k + 1" d ?evs] te by auto
    have b: "batch_texts evs' = batch_texts evs @ [join_nl ?batch]"
      unfolding n using bn by (simp add: batch_texts_def)
    have w: "set (word_texts evs') \<subseteq> set (word_texts evs) \<union> set wtt"
      unfolding n using wn batch_subset[of i wtt] by (auto simp: word_texts_def)
    show ?thesis
      using None te Cons.IH[of k' d' evs'] b w
      by (auto simp: Let_def)
  qed
qed

lemma translate_words_cached:
  assumes "p \<noteq> []"
  shows "translate_words tr (Cached d) words (Some p) =
     (let wtt = [w \<leftarrow> words. w \<notin> fst ` set d] in
      if wtt \<noteq> [] then
        (case translate_batches tr wtt [i \<leftarrow> [0..<length wtt]. i mod 50 = 0]
                (0, d, [Print_cache_loaded (length d), Print_translating (length wtt)]) of
           (k, translations', evs') \<Rightarrow>
             (evs' @ [Save_cache p translations', Print_cache_saved p], translations'))
      else ([Print_cache_loaded (length d)], d))"
  using assms by (simp add: translate_words_def Let_def)

text \<open>
  C7. With a cache file that is loaded, the batches sent to the backend are the
  consecutive slices of 50 of the input words that are not keys of the cache, each
  joined by newlines; the words sent one by one after a failed batch are among
  those words too. So the words sent are exactly the words not in the cache, and
  when every input word is cached the backend is not called at all. The mapping
  returned has every cached entry unchanged.
\<close>

theorem cached_words_not_sent:
  assumes "p \<noteq> []"
      and "translate_words tr (Cached d) words (Some p) = (evs, translations)"
  shows "batch_texts evs = map join_nl (spec_batches [w \<leftarrow> words. w \<notin> fst ` set d])
     \<and> concat (spec_batches [w \<leftarrow> words. w \<notin> fst ` set d]) = [w \<leftarrow> words. w \<notin> fst ` set d]
     \<and> set (concat (spec_batches [w \<leftarrow> words. w \<notin> fst ` set d])) = set words - fst ` set d
     \<and> set (word_texts evs) \<subseteq> set words - fst ` set d
     \<and> (\<forall>w\<in>fst ` set d. dict_get translations w = dict_get d w)
     \<and> (set words \<subseteq> fst ` set d \<longrightarrow> evs = [Print_cache_loaded (length d)] \<and> translations = d)"
proof -
  let ?wtt = "[w \<leftarrow> words. w \<notin> fst ` set d]"
  let ?idxs = "[i \<leftarrow> [0..<length ?wtt]. i mod 50 = 0]"
  let ?st = "translate_batches tr ?wtt ?idxs
                (0, d, [Print_cache_loaded (length d), Print_translating (length ?wtt)])"
  have idx: "map (\<lambda>i. join_nl (take 50 (drop i ?wtt))) ?idxs = map join_nl (spec_batches ?wtt)"
    unfolding filter_mod_50 spec_batches_def by (simp add: comp_def)
  have sw: "set ?wtt = set words - fst ` set d" by auto
  have b: "concat (spec_batches ?wtt) = ?wtt" by (rule concat_spec_batches)
  have c: "set (concat (spec_batches ?wtt)) = set words - fst ` set d" unfolding b sw ..
  show ?thesis
  proof (cases "?wtt = []")
    case True
    then have "translate_words tr (Cached d) words (Some p) = ([Print_cache_loaded (length d)], d)"
      using translate_words_cached[OF assms(1), of tr d words] by (simp add: Let_def)
    then have r: "evs = [Print_cache_loaded (length d)]" "translations = d"
      using assms(2) by auto
    have "spec_batches ?wtt = []" using True by (simp add: spec_batches_def)
    then show ?thesis using r b c by (simp add: batch_texts_def word_texts_def)
  next
    case False
    obtain k res evs' where st: "?st = (k, res, evs')" by (rule prod_cases3)
    have "translate_words tr (Cached d) words (Some p) =
            (evs' @ [Save_cache p res, Print_cache_saved p], res)"
      using translate_words_cached[OF assms(1), of tr d words] False st by (simp add: Let_def)
    then have r: "evs = evs' @ [Save_cache p res, Print_cache_saved p]" "translations = res"
      using assms(2) by auto
    have ev: "batch_texts evs' = map (\<lambda>i. join_nl (take 50 (drop i ?wtt))) ?idxs"
      and wt: "set (word_texts evs') \<subseteq> set ?wtt"
      using translate_batches_events[of tr ?wtt ?idxs 0 d
          "[Print_cache_loaded (length d), Print_translating (length ?wtt)]"] st
      by (simp_all add: batch_texts_def word_texts_def)
    have a1: "batch_texts evs = map join_nl (spec_batches ?wtt)"
      unfolding r using ev idx by (simp add: batch_texts_def)
    have a2: "set (word_texts evs) \<subseteq> set words - fst ` set d"
      unfolding r using wt sw by (simp add: word_texts_def)
    have a3: "\<forall>w\<in>fst ` set d. dict_get translations w = dict_get d w"
    proof
      fix w assume "w \<in> fst ` set d"
      then have "w \<notin> set ?wtt" by simp
      from translate_batches_dict[OF this, of tr ?idxs 0 d
          "[Print_cache_loaded (length d), Print_translating (length ?wtt)]"]
      show "dict_get translations w = dict_get d w" using st r by simp
    qed
    have a4: "set words \<subseteq> fst ` set d \<longrightarrow> evs = [Print_cache_loaded (length d)] \<and> translations = d"
      using False by (auto simp: filter_empty_conv)
    show ?thesis using a1 b c a2 a3 a4 by blast
  qed
qed

lemma example_translation:
  "translate_words example_translator (Cached example_cache) [ascii ''cat'', ascii ''dog'']
      (Some (ascii ''cache.json'')) =
     ([Print_cache_loaded 1, Print_translating 1,
       Translate_batch (ascii ''dog'') (Some [29399]),
       Save_cache (ascii ''cache.json'') [(ascii ''cat'', [29483]), (ascii ''dog'', [29399])],
       Print_cache_saved (ascii ''cache.json'')],
      [(ascii ''cat'', [29483]), (ascii ''dog'', [29399])])"
  by (simp add: translate_words_def Let_def example_cache_def example_translator_def
      assign_batch_def dict_set_def strip_def isspace_def ascii_def upt_rec)

theorem cached_words_not_sent_witness:
  "ascii ''cache.json'' \<noteq> []
   \<and> translate_words example_translator (Cached example_cache) [ascii ''cat'', ascii ''dog'']
      (Some (ascii ''cache.json'')) =
     ([Print_cache_loaded 1, Print_translating 1,
       Translate_batch (ascii ''dog'') (Some [29399]),
       Save_cache (ascii ''cache.json'') [(ascii ''cat'', [29483]), (ascii ''dog'', [29399])],
       Print_cache_saved (ascii ''cache.json'')],
      [(ascii ''cat'', [29483]), (ascii ''dog'', [29399])])
   \<and> set (concat (spec_batches [w \<leftarrow> [ascii ''cat'', ascii ''dog'']. w \<notin> fst ` set example_cache]))
       = set [ascii ''cat'', ascii ''dog''] - fst ` set example_cache
   \<and> dict_get [(ascii ''cat'', [29483]), (ascii ''dog'', [29399])] (ascii ''cat'')
       = dict_get example_cache (ascii ''cat'')"
proof -
  have h1: "ascii ''cache.json'' \<noteq> []" by (simp add: ascii_def)
  note T = cached_words_not_sent[OF h1 example_translation]
  have a: "set (concat (spec_batches [w \<leftarrow> [ascii ''cat'', ascii ''dog'']. w \<notin> fst ` set example_cache]))
       = set [ascii ''cat'', ascii ''dog''] - fst ` set example_cache"
    using T by blast
  have "ascii ''cat'' \<in> fst ` set example_cache" by (simp add: example_cache_def)
  then have b: "dict_get [(ascii ''cat'', [29483]), (ascii ''dog'', [29399])] (ascii ''cat'')
       = dict_get example_cache (ascii ''cat'')"
    using T by blast
  show ?thesis using h1 example_translation a b by blast
qed

end
